theory Spec2Isabelle
  imports Main "HOL-Library.Sublist" "HOL-Library.AList" "HOL-Library.Multiset"
begin

section \<open>JavaScript values\<close>

text \<open>
  The validators and the transform layer receive course documents typed \<open>any\<close> (or cast to
  it), so the model works on untyped JSON-like values. Objects are association lists in
  insertion order (keys distinct, see \<open>wf_json\<close>), numbers are integers, strings are
  \<open>char\<close> lists. A thrown exception (and a rejected promise of an \<open>async\<close> method) is the
  left summand of a result.
\<close>

datatype jsv =
    JUndefined
  | JNull
  | JBool bool
  | JNum int
  | JStr string
  | JArr "jsv list"
  | JObj "(string \<times> jsv) list"

datatype error =
    TypeError
  | SyntaxError
  | NotModelled

type_synonym 'a result = "error + 'a"

text \<open>Sequencing of fallible steps: the first exception ends the evaluation.\<close>

definition bind :: "'a result \<Rightarrow> ('a \<Rightarrow> 'b result) \<Rightarrow> 'b result" where
  "bind m f = (case m of Inl e \<Rightarrow> Inl e | Inr x \<Rightarrow> f x)"

text \<open>\<open>ToBoolean\<close>: the falsy values are undefined, null, false, 0 and the empty string.\<close>

fun truthy :: "jsv \<Rightarrow> bool" where
  "truthy JUndefined = False"
| "truthy JNull = False"
| "truthy (JBool b) = b"
| "truthy (JNum n) = (n \<noteq> 0)"
| "truthy (JStr s) = (s \<noteq> [])"
| "truthy (JArr xs) = True"
| "truthy (JObj kvs) = True"

text \<open>\<open>a || b\<close> and \<open>a ?? b\<close> on values that are already evaluated.\<close>

definition js_or :: "jsv \<Rightarrow> jsv \<Rightarrow> jsv" where
  "js_or a b = (if truthy a then a else b)"

definition nullish :: "jsv \<Rightarrow> jsv \<Rightarrow> jsv" where
  "nullish a b = (if a = JUndefined \<or> a = JNull then b else a)"

text \<open>
  Property read \<open>v.k\<close> for the property names the sources use (none of them is an array
  index or a prototype member other than \<open>length\<close>): reading from undefined or null throws.
\<close>

fun get :: "jsv \<Rightarrow> string \<Rightarrow> jsv result" where
  "get JUndefined k = Inl TypeError"
| "get JNull k = Inl TypeError"
| "get (JObj kvs) k = Inr (case map_of kvs k of None \<Rightarrow> JUndefined | Some v \<Rightarrow> v)"
| "get (JArr xs) k = Inr (if k = ''length'' then JNum (int (length xs)) else JUndefined)"
| "get (JStr s) k = Inr (if k = ''length'' then JNum (int (length s)) else JUndefined)"
| "get (JBool b) k = Inr JUndefined"
| "get (JNum n) k = Inr JUndefined"

text \<open>Optional chaining \<open>v?.k\<close>: undefined instead of an exception.\<close>

definition getq :: "jsv \<Rightarrow> string \<Rightarrow> jsv" where
  "getq v k = (case get v k of Inl e \<Rightarrow> JUndefined | Inr x \<Rightarrow> x)"

text \<open>\<open>typeof v\<close>; arrays and null are objects.\<close>

fun typeof :: "jsv \<Rightarrow> string" where
  "typeof JUndefined = ''undefined''"
| "typeof JNull = ''object''"
| "typeof (JBool b) = ''boolean''"
| "typeof (JNum n) = ''number''"
| "typeof (JStr s) = ''string''"
| "typeof (JArr xs) = ''object''"
| "typeof (JObj kvs) = ''object''"

fun isArray :: "jsv \<Rightarrow> bool" where
  "isArray (JArr xs) = True"
| "isArray v = False"

text \<open>
  \<open>String.prototype.trim\<close> removes white space and line terminators at both ends; within
  the Latin-1 range of \<open>char\<close> these are the code points 9 to 13, 32 and 160.
\<close>

definition isWhiteSpace :: "char \<Rightarrow> bool" where
  "isWhiteSpace c = (of_char c \<in> {9, 10, 11, 12, 13, 32, 160 :: nat})"

definition trim :: "string \<Rightarrow> string" where
  "trim s = rev (dropWhile isWhiteSpace (rev (dropWhile isWhiteSpace s)))"

text \<open>\<open>v.trim()\<close>: only a string has the method; on anything else the call throws.\<close>

fun js_trim :: "jsv \<Rightarrow> string result" where
  "js_trim (JStr s) = Inr (trim s)"
| "js_trim v = Inl TypeError"

text \<open>\<open>s.startsWith(p)\<close> and \<open>s.includes(p)\<close> on strings.\<close>

definition startsWith :: "string \<Rightarrow> string \<Rightarrow> bool" where
  "startsWith s p = prefix p s"

definition js_includes :: "string \<Rightarrow> string \<Rightarrow> bool" where
  "js_includes s p = sublist p s"

text \<open>
  Relational comparison \<open>v > k\<close> and \<open>v < k\<close> against a number literal. Undefined converts
  to NaN (every comparison false), null to 0, a boolean to 0 or 1. \<open>ToNumber\<close> of strings,
  arrays and objects is outside the model.
\<close>

fun toNumber :: "jsv \<Rightarrow> int option result" where
  "toNumber JUndefined = Inr None"
| "toNumber JNull = Inr (Some 0)"
| "toNumber (JBool b) = Inr (Some (if b then 1 else 0))"
| "toNumber (JNum n) = Inr (Some n)"
| "toNumber (JStr s) = Inl NotModelled"
| "toNumber (JArr xs) = Inl NotModelled"
| "toNumber (JObj kvs) = Inl NotModelled"

definition js_gt :: "jsv \<Rightarrow> int \<Rightarrow> bool result" where
  "js_gt v k = bind (toNumber v) (\<lambda>n. Inr (case n of None \<Rightarrow> False | Some m \<Rightarrow> m > k))"

definition js_lt :: "jsv \<Rightarrow> int \<Rightarrow> bool result" where
  "js_lt v k = bind (toNumber v) (\<lambda>n. Inr (case n of None \<Rightarrow> False | Some m \<Rightarrow> m < k))"

text \<open>Decimal text of an integer.\<close>

definition digit_char :: "nat \<Rightarrow> char" where
  "digit_char d = ''0123456789'' ! d"

function string_of_nat :: "nat \<Rightarrow> string" where
  "string_of_nat n =
     (if n < 10 then [digit_char n]
      else string_of_nat (n div 10) @ [digit_char (n mod 10)])"
  by pat_completeness auto
termination
  by (relation "measure (\<lambda>n. n)") auto

declare string_of_nat.simps [simp del]

definition string_of_int :: "int \<Rightarrow> string" where
  "string_of_int i = (if i < 0 then ''-'' @ string_of_nat (nat (- i)) else string_of_nat (nat i))"

text \<open>
  \<open>Number::toString\<close> on an integer. A number is a double: an integer from \<open>2^53\<close> on is
  read as the nearest double (ties to the even mantissa), and printed with the fewest digits
  \<open>s\<close> such that \<open>s * 10^e\<close> reads as the same double, the closest such \<open>s\<close> (an even one
  on a tie), followed by its zeros below \<open>10^21\<close> and in exponent notation from there on. An
  integer below \<open>2^53\<close> is printed as it is.
\<close>

function bitlen :: "nat \<Rightarrow> nat" where
  "bitlen n = (if n = 0 then 0 else Suc (bitlen (n div 2)))"
  by pat_completeness auto
termination
  by (relation "measure (\<lambda>n. n)") auto

declare bitlen.simps [simp del]

definition roundDouble :: "nat \<Rightarrow> nat" where
  "roundDouble v =
     (let u = 2 ^ (bitlen v - 53); q = v div u; r = v mod u
      in if 2 * r < u \<or> (2 * r = u \<and> even q) then q * u else (q + 1) * u)"

text \<open>The decimals of \<open>k\<close> digits, followed by zeros, that read as the double \<open>x\<close>: of the
  two around \<open>x\<close>, those that do.\<close>

definition decimalsOf :: "nat \<Rightarrow> nat \<Rightarrow> nat list" where
  "decimalsOf x k =
     (let e = 10 ^ (length (string_of_nat x) - k); lo = x div e
      in filter (\<lambda>v. roundDouble v = x) [lo * e, (lo + 1) * e])"

definition closestOf :: "nat \<Rightarrow> nat \<Rightarrow> nat list \<Rightarrow> nat" where
  "closestOf x k vs =
     (case vs of
        [] \<Rightarrow> x
      | [v] \<Rightarrow> v
      | lo # hi # _ \<Rightarrow>
          if x - lo < hi - x then lo
          else if hi - x < x - lo then hi
          else if even (lo div 10 ^ (length (string_of_nat x) - k)) then lo else hi)"

definition shortestDecimal :: "nat \<Rightarrow> nat" where
  "shortestDecimal x =
     (case filter (\<lambda>k. decimalsOf x k \<noteq> []) [1..<Suc (length (string_of_nat x))] of
        [] \<Rightarrow> x
      | k # _ \<Rightarrow> closestOf x k (decimalsOf x k))"

definition exponentForm :: "string \<Rightarrow> string" where
  "exponentForm ds =
     (let sd = rev (dropWhile (\<lambda>c. c = CHR ''0'') (rev ds))
      in [hd sd] @ (if tl sd = [] then [] else CHR ''.'' # tl sd) @ ''e+'' @
         string_of_nat (length ds - 1))"

definition number_toString :: "int \<Rightarrow> string" where
  "number_toString i =
     (if \<bar>i\<bar> < 2 ^ 53 then string_of_int i
      else (if i < 0 then ''-'' else []) @
           (let x = roundDouble (nat \<bar>i\<bar>) in
            if 2 ^ 1024 \<le> x then ''Infinity''
            else let ds = string_of_nat (shortestDecimal x) in
              if length ds \<le> 21 then ds else exponentForm ds))"

fun join :: "string \<Rightarrow> string list \<Rightarrow> string" where
  "join sep [] = []"
| "join sep [x] = x"
| "join sep (x # y # ys) = x @ sep @ join sep (y # ys)"

text \<open>\<open>ToString\<close>, as a template literal applies it. An array joins its elements with
  commas, printing null and undefined as nothing.\<close>

fun js_toString :: "jsv \<Rightarrow> string" where
  "js_toString JUndefined = ''undefined''"
| "js_toString JNull = ''null''"
| "js_toString (JBool b) = (if b then ''true'' else ''false'')"
| "js_toString (JNum n) = number_toString n"
| "js_toString (JStr s) = s"
| "js_toString (JArr xs) =
     join '','' (map (\<lambda>x. if x = JUndefined \<or> x = JNull then [] else js_toString x) xs)"
| "js_toString (JObj kvs) = ''[object Object]''"

text \<open>A loop body that may throw, run over the elements with their indices; the
  results are appended in order.\<close>

fun forEach :: "(jsv \<Rightarrow> nat \<Rightarrow> 'a list result) \<Rightarrow> jsv list \<Rightarrow> nat \<Rightarrow> 'a list result" where
  "forEach f [] i = Inr []"
| "forEach f (x # xs) i =
     bind (f x i) (\<lambda>es. bind (forEach f xs (Suc i)) (\<lambda>rest. Inr (es @ rest)))"

section \<open>Validation service\<close>

subsection \<open>Error model\<close>

datatype category = Schema | Business | TemplateCat | Navigation

datatype level = Error | Warning | Info

record ValidationError =
  err_id :: string
  field :: string
  category :: category
  message :: string
  level :: level
  ctx :: jsv

record ValidationResult =
  valid :: bool
  errors :: "ValidationError list"
  timestamp :: string

subsection \<open>Course validator\<close>

text \<open>The entries of the \<open>en\<close> translation table that the validators look up, and the
  lookup \<open>t(key, fallback)\<close> of \<open>i18n/strings.ts\<close>.\<close>

definition en :: "(string \<times> string) list" where
  "en = [(''validate.no.course'', ''Please load a course before validating.''),
         (''validate.error.title.required'', ''Course title is required''),
         (''validate.error.page.required'', ''At least one page is required''),
         (''validate.success'', ''Course is valid!''),
         (''validate.errors.prefix'', ''Validation errors: '')]"

definition i18n_t :: "string \<Rightarrow> string \<Rightarrow> string" where
  "i18n_t key fallback =
     (case map_of en key of
        Some s \<Rightarrow> if s \<noteq> [] then s else if fallback \<noteq> [] then fallback else key
      | None \<Rightarrow> if fallback \<noteq> [] then fallback else key)"

definition createError :: "string \<Rightarrow> category \<Rightarrow> string \<Rightarrow> jsv \<Rightarrow> ValidationError" where
  "createError f c m cx =
     \<lparr>err_id = [], field = f, category = c, message = m, level = Error, ctx = cx\<rparr>"

text \<open>The test \<open>!v || v.trim().length === 0\<close>.\<close>

definition blank :: "jsv \<Rightarrow> bool result" where
  "blank v = (if \<not> truthy v then Inr True else bind (js_trim v) (\<lambda>s. Inr (length s = 0)))"

text \<open>The test \<open>v && v.length > k\<close>.\<close>

definition longer :: "jsv \<Rightarrow> int \<Rightarrow> bool result" where
  "longer v k = (if \<not> truthy v then Inr False else bind (get v ''length'') (\<lambda>l. js_gt l k))"

definition lengthContext :: "jsv \<Rightarrow> int \<Rightarrow> jsv" where
  "lengthContext v k = JObj [(''currentLength'', getq v ''length''), (''maxLength'', JNum k)]"

definition mkResult :: "string \<Rightarrow> ValidationError list \<Rightarrow> ValidationResult" where
  "mkResult now errs = \<lparr>valid = (length errs = 0), errors = errs, timestamp = now\<rparr>"

text \<open>\<open>CourseValidator.validate\<close>: six independent checks, in source order.\<close>

definition CourseValidator_validate :: "string \<Rightarrow> jsv \<Rightarrow> ValidationResult result" where
  "CourseValidator_validate now course =
     bind (get course ''title'') (\<lambda>title.
     bind (blank title) (\<lambda>titleMissing.
     bind (longer title 200) (\<lambda>titleLong.
     bind (get course ''author'') (\<lambda>author.
     bind (blank author) (\<lambda>authorMissing.
     bind (longer author 100) (\<lambda>authorLong.
     bind (get course ''description'') (\<lambda>description.
     bind (longer description 500) (\<lambda>descriptionLong.
     bind (get course ''pages'') (\<lambda>pages.
     bind (if \<not> truthy pages then Inr True
           else bind (get pages ''length'') (\<lambda>l. Inr (l = JNum 0))) (\<lambda>pagesMissing.
     Inr (mkResult now
       ((if titleMissing then
           [createError ''course.title'' Schema
              (i18n_t ''validate.error.title.required'' ''Course title is required'')
              (JObj [(''suggestion'', JStr ''Add a descriptive title for your course'')])]
         else []) @
        (if titleLong then
           [createError ''course.title'' Business
              (i18n_t ''validate.error.title.length'' ''Title must be 200 characters or less'')
              (lengthContext title 200)]
         else []) @
        (if authorMissing then
           [createError ''course.author'' Schema ''Course author is required''
              (JObj [(''suggestion'', JStr ''Add the course author name'')])]
         else []) @
        (if authorLong then
           [createError ''course.author'' Business ''Author name must be 100 characters or less''
              (lengthContext author 100)]
         else []) @
        (if descriptionLong then
           [createError ''course.description'' Business
              ''Description must be 500 characters or less'' (lengthContext description 500)]
         else []) @
        (if pagesMissing then
           [createError ''course.pages'' Business
              (i18n_t ''validate.error.page.required'' ''At least one page is required'')
              (JObj [(''suggestion'', JStr ''Add a page from templates'')])]
         else [])))))))))))))"

text \<open>\<open>CourseValidator.validateField\<close> and \<open>supportsField\<close>.\<close>

definition CourseValidator_validateField ::
  "string \<Rightarrow> jsv \<Rightarrow> string \<Rightarrow> jsv \<Rightarrow> ValidationResult result" where
  "CourseValidator_validateField now course fieldPath v =
     bind
       (if fieldPath = ''title'' then
          bind (blank v) (\<lambda>b.
            if b then Inr [createError fieldPath Schema ''Title is required'' JUndefined]
            else bind (get v ''length'') (\<lambda>l. bind (js_gt l 200) (\<lambda>g.
              Inr (if g then [createError fieldPath Business ''Title too long'' JUndefined] else []))))
        else if fieldPath = ''author'' then
          bind (blank v) (\<lambda>b.
            if b then Inr [createError fieldPath Schema ''Author is required'' JUndefined]
            else bind (get v ''length'') (\<lambda>l. bind (js_gt l 100) (\<lambda>g.
              Inr (if g then [createError fieldPath Business ''Author name too long'' JUndefined]
                   else []))))
        else if fieldPath = ''description'' then
          bind (longer v 500) (\<lambda>g.
            Inr (if g then [createError fieldPath Business ''Description too long'' JUndefined]
                 else []))
        else Inr [])
       (\<lambda>errs. Inr (mkResult now errs))"

definition CourseValidator_supportsField :: "string \<Rightarrow> bool" where
  "CourseValidator_supportsField fieldPath =
     (fieldPath \<in> set [''title'', ''description'', ''author'', ''version''])"

subsection \<open>Template validator\<close>

definition pageField :: "nat \<Rightarrow> string \<Rightarrow> string" where
  "pageField index rest = ''pages['' @ string_of_nat index @ '']'' @ rest"

definition mkError :: "string \<Rightarrow> category \<Rightarrow> string \<Rightarrow> level \<Rightarrow> ValidationError" where
  "mkError f c m l =
     \<lparr>err_id = [], field = f, category = c, message = m, level = l, ctx = JUndefined\<rparr>"

text \<open>\<open>TemplateValidator.normalizeTemplateType\<close>: the runtime property first.\<close>

definition normalizeTemplateType :: "jsv \<Rightarrow> jsv result" where
  "normalizeTemplateType page =
     bind (get page ''templateType'') (\<lambda>tt.
       if truthy tt then Inr tt
       else bind (get page ''type'') (\<lambda>ty. if truthy ty then Inr ty else Inr JUndefined))"

definition validateMCQ :: "jsv \<Rightarrow> nat \<Rightarrow> ValidationError list result" where
  "validateMCQ page index =
     bind (get page ''content'') (\<lambda>mcqData.
     bind (get mcqData ''question'') (\<lambda>question.
     bind (get mcqData ''options'') (\<lambda>options.
     bind (if \<not> isArray options then Inr True
           else bind (get options ''length'') (\<lambda>l. js_lt l 2)) (\<lambda>tooFew.
     bind (get mcqData ''correctAnswer'') (\<lambda>correctAnswer.
     Inr
       ((if \<not> truthy question \<or> typeof question \<noteq> ''string'' then
           [mkError (pageField index ''.content.question'') Business
              (''MCQ page '' @ string_of_nat (index + 1) @ '' must have a question'') Error]
         else []) @
        (if tooFew then
           [mkError (pageField index ''.content.options'') Business
              (''MCQ page '' @ string_of_nat (index + 1) @ '' must have at least 2 options'') Error]
         else []) @
        (if correctAnswer = JUndefined then
           [mkError (pageField index ''.content.correctAnswer'') Business
              (''MCQ page '' @ string_of_nat (index + 1) @ '' must have a correct answer'') Error]
         else [])))))))"

definition validateContentText :: "jsv \<Rightarrow> nat \<Rightarrow> ValidationError list result" where
  "validateContentText page index =
     bind (get page ''content'') (\<lambda>content.
     bind (get content ''body'') (\<lambda>body.
     bind (blank body) (\<lambda>b.
     Inr (if b then
            [mkError (pageField index ''.content.body'') Business
               (''Content page '' @ string_of_nat (index + 1) @ '' must have body text'') Warning]
          else []))))"

definition validateWelcome :: "jsv \<Rightarrow> nat \<Rightarrow> ValidationError list result" where
  "validateWelcome page index =
     bind (get page ''content'') (\<lambda>content.
     bind (get content ''title'') (\<lambda>title.
     Inr (if \<not> truthy title then
            [mkError (pageField index ''.content.title'') Business
               ''Welcome page must have a title'' Error]
          else [])))"

text \<open>The body of the \<open>forEach\<close> of \<open>TemplateValidator.validate\<close>.\<close>

definition validatePage :: "jsv \<Rightarrow> nat \<Rightarrow> ValidationError list result" where
  "validatePage page index =
     bind (normalizeTemplateType page) (\<lambda>templateType.
       if \<not> truthy templateType then
         Inr [mkError (pageField index ''.templateType'') Schema
                (''Page '' @ string_of_nat (index + 1) @ '' missing template type'') Error]
       else if templateType = JStr ''mcq'' then validateMCQ page index
       else if templateType = JStr ''content-text'' then validateContentText page index
       else if templateType = JStr ''welcome'' then validateWelcome page index
       else
         Inr [mkError (pageField index ''.templateType'') Business
                (''Unknown template type: '' @ js_toString templateType) Warning])"

text \<open>\<open>TemplateValidator.validate\<close>: \<open>course.pages?.forEach\<close> skips a null or undefined
  \<open>pages\<close>; any other value that is not an array has no \<open>forEach\<close> to call.\<close>

definition TemplateValidator_validate :: "string \<Rightarrow> jsv \<Rightarrow> ValidationResult result" where
  "TemplateValidator_validate now course =
     bind (get course ''pages'') (\<lambda>pages.
     bind (case pages of
             JUndefined \<Rightarrow> Inr []
           | JNull \<Rightarrow> Inr []
           | JArr ps \<Rightarrow> forEach validatePage ps 0
           | _ \<Rightarrow> Inl TypeError) (\<lambda>errs.
     Inr (mkResult now errs)))"

definition TemplateValidator_validateField ::
  "string \<Rightarrow> jsv \<Rightarrow> string \<Rightarrow> jsv \<Rightarrow> ValidationResult result" where
  "TemplateValidator_validateField now course fieldPath v =
     Inr \<lparr>valid = True, errors = [], timestamp = now\<rparr>"

definition TemplateValidator_supportsField :: "string \<Rightarrow> bool" where
  "TemplateValidator_supportsField fieldPath = startsWith fieldPath ''pages[''"

subsection \<open>Navigation validator\<close>

definition validateNavigationSettings :: "jsv \<Rightarrow> ValidationError list result" where
  "validateNavigationSettings navigation =
     bind (get navigation ''mode'') (\<lambda>mode.
     bind (get navigation ''requireCompletion'') (\<lambda>requireCompletion.
     bind (get navigation ''allowBack'') (\<lambda>allowBack.
     Inr
       ((if truthy mode \<and> mode \<notin> set [JStr ''linear'', JStr ''free'', JStr ''branching''] then
           [mkError ''settings.navigation.mode'' Business
              (''Invalid navigation mode: '' @ js_toString mode @ ''. Must be '' @
               [CHR 0x27] @ ''linear'' @ [CHR 0x27] @ '', '' @
               [CHR 0x27] @ ''free'' @ [CHR 0x27] @ '', or '' @
               [CHR 0x27] @ ''branching'' @ [CHR 0x27]) Error]
         else []) @
        (if requireCompletion \<noteq> JUndefined \<and> typeof requireCompletion \<noteq> ''boolean'' then
           [mkError ''settings.navigation.requireCompletion'' Schema
              ''requireCompletion must be a boolean'' Error]
         else []) @
        (if allowBack \<noteq> JUndefined \<and> typeof allowBack \<noteq> ''boolean'' then
           [mkError ''settings.navigation.allowBack'' Schema
              ''allowBack must be a boolean'' Error]
         else [])))))"

text \<open>Membership in the \<open>Set\<close> of page ids: primitives compare by value, while an
  object or array is only ever equal to itself, and JSON data holds no object twice.\<close>

fun isPrimitive :: "jsv \<Rightarrow> bool" where
  "isPrimitive (JArr xs) = False"
| "isPrimitive (JObj kvs) = False"
| "isPrimitive v = True"

definition setHas :: "jsv list \<Rightarrow> jsv \<Rightarrow> bool" where
  "setHas seen v = (isPrimitive v \<and> v \<in> set seen)"

text \<open>First loop of \<open>validatePageFlow\<close>: duplicate page ids.\<close>

fun duplicateIds :: "jsv list \<Rightarrow> jsv list \<Rightarrow> nat \<Rightarrow> ValidationError list result" where
  "duplicateIds [] pageIds index = Inr []"
| "duplicateIds (page # pages) pageIds index =
     bind (get page ''id'') (\<lambda>pid.
       if truthy pid then
         bind (duplicateIds pages (pid # pageIds) (Suc index)) (\<lambda>rest.
           Inr ((if setHas pageIds pid then
                   [mkError (pageField index ''.id'') Business
                      (''Duplicate page ID: '' @ js_toString pid) Error]
                 else []) @ rest))
       else duplicateIds pages pageIds (Suc index))"

text \<open>Second loop: the order field against the array position.\<close>

definition orderMismatch :: "jsv \<Rightarrow> nat \<Rightarrow> ValidationError list result" where
  "orderMismatch page index =
     bind (get page ''order'') (\<lambda>ord.
       Inr (if ord \<noteq> JUndefined \<and> ord \<noteq> JNum (int index) then
              [mkError (pageField index ''.order'') Business
                 (''Page order mismatch: expected '' @ string_of_nat index @ '', got '' @
                  js_toString ord) Warning]
            else []))"

text \<open>Third loop: branching conditions without a target.\<close>

definition missingTarget :: "nat \<Rightarrow> jsv \<Rightarrow> nat \<Rightarrow> ValidationError list result" where
  "missingTarget index condition condIndex =
     bind (get condition ''targetPageId'') (\<lambda>target.
       Inr (if \<not> truthy target then
              [mkError (pageField index (''.conditions['' @ string_of_nat condIndex @
                          ''].targetPageId'')) Business
                 ''Branching condition missing target page ID'' Error]
            else []))"

definition branching :: "jsv \<Rightarrow> nat \<Rightarrow> ValidationError list result" where
  "branching page index =
     bind (get page ''conditions'') (\<lambda>conditions.
       case conditions of
         JArr cs \<Rightarrow> forEach (missingTarget index) cs 0
       | _ \<Rightarrow> Inr [])"

definition validatePageFlow :: "jsv \<Rightarrow> ValidationError list result" where
  "validatePageFlow pages =
     (case pages of
        JArr ps \<Rightarrow>
          bind (duplicateIds ps [] 0) (\<lambda>e1.
          bind (forEach orderMismatch ps 0) (\<lambda>e2.
          bind (forEach branching ps 0) (\<lambda>e3.
          Inr (e1 @ e2 @ e3))))
      | _ \<Rightarrow> Inl TypeError)"

definition NavigationValidator_validate :: "string \<Rightarrow> jsv \<Rightarrow> ValidationResult result" where
  "NavigationValidator_validate now course =
     bind (get course ''settings'') (\<lambda>settings.
     bind (if truthy (getq settings ''navigation'')
           then validateNavigationSettings (getq settings ''navigation'')
           else Inr []) (\<lambda>e1.
     bind (get course ''pages'') (\<lambda>pages.
     bind (longer pages 0) (\<lambda>hasPages.
     bind (if hasPages then validatePageFlow pages else Inr []) (\<lambda>e2.
     Inr (mkResult now (e1 @ e2)))))))"

definition NavigationValidator_validateField ::
  "string \<Rightarrow> jsv \<Rightarrow> string \<Rightarrow> jsv \<Rightarrow> ValidationResult result" where
  "NavigationValidator_validateField now course fieldPath v =
     Inr \<lparr>valid = True, errors = [], timestamp = now\<rparr>"

definition NavigationValidator_supportsField :: "string \<Rightarrow> bool" where
  "NavigationValidator_supportsField fieldPath =
     (startsWith fieldPath ''settings.navigation'' \<or> startsWith fieldPath ''pages['')"

subsection \<open>The service\<close>

text \<open>The \<open>Validator\<close> interface and its three implementations.\<close>

datatype validator = CourseValidator | TemplateValidator | NavigationValidator

fun validate :: "validator \<Rightarrow> string \<Rightarrow> jsv \<Rightarrow> ValidationResult result" where
  "validate CourseValidator = CourseValidator_validate"
| "validate TemplateValidator = TemplateValidator_validate"
| "validate NavigationValidator = NavigationValidator_validate"

fun validateField ::
  "validator \<Rightarrow> string \<Rightarrow> jsv \<Rightarrow> string \<Rightarrow> jsv \<Rightarrow> ValidationResult result" where
  "validateField CourseValidator = CourseValidator_validateField"
| "validateField TemplateValidator = TemplateValidator_validateField"
| "validateField NavigationValidator = NavigationValidator_validateField"

fun supportsField :: "validator \<Rightarrow> string \<Rightarrow> bool" where
  "supportsField CourseValidator = CourseValidator_supportsField"
| "supportsField TemplateValidator = TemplateValidator_supportsField"
| "supportsField NavigationValidator = NavigationValidator_supportsField"

text \<open>The validators the constructor registers when none are injected.\<close>

definition defaultValidators :: "validator list" where
  "defaultValidators = [CourseValidator, TemplateValidator, NavigationValidator]"

subsection \<open>Severity\<close>

text \<open>\<open>ValidationService.determineLevel\<close>.\<close>

definition determineLevel :: "ValidationError \<Rightarrow> level" where
  "determineLevel err =
     (if category err = Schema then Error
      else if category err = Business \<and> js_includes (field err) ''required'' then Error
      else if category err = Business then Warning
      else Info)"

text \<open>The string form of a category, as the template literal of the id prints it.\<close>

fun category_name :: "category \<Rightarrow> string" where
  "category_name Schema = ''schema''"
| "category_name Business = ''business''"
| "category_name TemplateCat = ''template''"
| "category_name Navigation = ''navigation''"

text \<open>
  \<open>ValidationService.categorizeErrors\<close>. The clock and the random source are the
  environment: \<open>stamp i\<close> is the text of \<open>Date.now()\<close> and \<open>Math.random()\<close> joined by a
  dash at the \<open>i\<close>-th error.
\<close>

definition categorizeErrors :: "(nat \<Rightarrow> string) \<Rightarrow> ValidationError list \<Rightarrow> ValidationError list" where
  "categorizeErrors stamp errs =
     map (\<lambda>(i, err). err\<lparr>err_id := category_name (category err) @ ''-'' @ stamp i,
                            level := determineLevel err\<rparr>)
       (enumerate 0 errs)"

text \<open>\<open>Promise.all\<close> over the validators: the results in order, or the first rejection.
  \<open>clock i\<close> is the reading of the wall clock by the \<open>i\<close>-th validator.\<close>

fun promiseAll :: "validator list \<Rightarrow> (nat \<Rightarrow> string) \<Rightarrow> nat \<Rightarrow> jsv \<Rightarrow> ValidationResult list result" where
  "promiseAll [] clock i course = Inr []"
| "promiseAll (v # vs) clock i course =
     bind (validate v (clock i) course) (\<lambda>r.
     bind (promiseAll vs clock (Suc i) course) (\<lambda>rs. Inr (r # rs)))"

text \<open>\<open>ValidationService.validateCourse\<close>.\<close>

definition validateCourse ::
  "validator list \<Rightarrow> (nat \<Rightarrow> string) \<Rightarrow> (nat \<Rightarrow> string) \<Rightarrow> jsv \<Rightarrow> ValidationResult result" where
  "validateCourse validators clock stamp course =
     bind (promiseAll validators clock 0 course) (\<lambda>results.
       let errs = concat (map errors results) in
       Inr \<lparr>valid = (length errs = 0),
            errors = categorizeErrors stamp errs,
            timestamp = clock (length validators)\<rparr>)"

text \<open>\<open>ValidationService.validateField\<close>.\<close>

definition service_validateField ::
  "validator list \<Rightarrow> string \<Rightarrow> jsv \<Rightarrow> string \<Rightarrow> jsv \<Rightarrow> ValidationError list result" where
  "service_validateField validators now course fieldPath v =
     (case find (\<lambda>v. supportsField v fieldPath) validators of
        None \<Rightarrow> Inr []
      | Some relevantValidator \<Rightarrow>
          bind (validateField relevantValidator now course fieldPath v) (\<lambda>r. Inr (errors r)))"

section \<open>Cross-source merge\<close>

text \<open>
  The bucketing loop of \<open>validateCourse\<close> in the course context provider: the three
  arrays are the loop state, and each error is pushed onto one of them by its \<open>type\<close>.
\<close>

fun bucketErrors ::
  "jsv list \<Rightarrow> jsv list \<times> jsv list \<times> jsv list \<Rightarrow> (jsv list \<times> jsv list \<times> jsv list) result" where
  "bucketErrors [] acc = Inr acc"
| "bucketErrors (err # errs) (structural, business, other) =
     bind (get err ''type'') (\<lambda>ty.
       if ty = JStr ''value_error'' \<or> ty = JStr ''type_error'' then
         bucketErrors errs (structural @ [err], business, other)
       else if ty = JStr ''business_rule_error'' then
         bucketErrors errs (structural, business @ [err], other)
       else bucketErrors errs (structural, business, other @ [err]))"

text \<open>The list dispatched as \<open>SET_VALIDATION_ERRORS\<close>, from the errors of the client
  validation and of the server validation.\<close>

definition mergeValidationErrors :: "jsv list \<Rightarrow> jsv list \<Rightarrow> jsv list result" where
  "mergeValidationErrors clientErrors serverErrors =
     (let merged = clientErrors @ serverErrors in
      bind (bucketErrors merged ([], [], [])) (\<lambda>(structural, business, other).
        Inr (structural @ business @ other)))"

section \<open>Transform layer\<close>

subsection \<open>Cloning, spreading, property writes\<close>

text \<open>\<open>JSON.parse(JSON.stringify(v))\<close>: a property whose value is undefined is dropped, an
  undefined array element becomes null; undefined itself has no JSON text to parse.\<close>

fun jsonClone :: "jsv \<Rightarrow> jsv" where
  "jsonClone (JArr xs) = JArr (map (\<lambda>x. if x = JUndefined then JNull else jsonClone x) xs)"
| "jsonClone (JObj kvs) =
     JObj (map (\<lambda>kv. (fst kv, jsonClone (snd kv))) (filter (\<lambda>kv. snd kv \<noteq> JUndefined) kvs))"
| "jsonClone v = v"

definition deepClone :: "jsv \<Rightarrow> jsv result" where
  "deepClone v = (if v = JUndefined then Inl SyntaxError else Inr (jsonClone v))"

text \<open>Assignment \<open>o.k = v\<close> in strict mode: it throws on a primitive; named properties
  of arrays are outside the model.\<close>

fun setProp :: "jsv \<Rightarrow> string \<Rightarrow> jsv \<Rightarrow> jsv result" where
  "setProp (JObj kvs) k v = Inr (JObj (AList.update k v kvs))"
| "setProp (JArr xs) k v = Inl NotModelled"
| "setProp u k v = Inl TypeError"

text \<open>The own enumerable properties that \<open>{...v}\<close> copies.\<close>

fun spreadObj :: "jsv \<Rightarrow> (string \<times> jsv) list" where
  "spreadObj (JObj kvs) = kvs"
| "spreadObj (JArr xs) = map (\<lambda>(i, x). (string_of_nat i, x)) (enumerate 0 xs)"
| "spreadObj (JStr s) = map (\<lambda>(i, c). (string_of_nat i, JStr [c])) (enumerate 0 s)"
| "spreadObj v = []"

text \<open>The elements that \<open>[...v]\<close> iterates: only arrays and strings are iterable.\<close>

fun spreadArray :: "jsv \<Rightarrow> jsv list result" where
  "spreadArray (JArr xs) = Inr xs"
| "spreadArray (JStr s) = Inr (map (\<lambda>c. JStr [c]) s)"
| "spreadArray v = Inl TypeError"

text \<open>\<open>xs.map((x, i) => f(x, i))\<close> with a callback that may throw.\<close>

fun mapIdx :: "(jsv \<Rightarrow> nat \<Rightarrow> jsv result) \<Rightarrow> jsv list \<Rightarrow> nat \<Rightarrow> jsv list result" where
  "mapIdx f [] i = Inr []"
| "mapIdx f (x # xs) i =
     bind (f x i) (\<lambda>y. bind (mapIdx f xs (Suc i)) (\<lambda>ys. Inr (y # ys)))"

text \<open>\<open>xs.findIndex(p)\<close>: the callback runs up to the first hit.\<close>

fun findIndex :: "(jsv \<Rightarrow> bool result) \<Rightarrow> jsv list \<Rightarrow> nat \<Rightarrow> int result" where
  "findIndex p [] i = Inr (- 1)"
| "findIndex p (x # xs) i =
     bind (p x) (\<lambda>b. if b then Inr (int i) else findIndex p xs (Suc i))"

subsection \<open>Sorting\<close>

text \<open>
  \<open>Array.prototype.sort\<close> with a comparator is a stable sort. The model inserts the elements
  from left to right, each behind every element that the comparator does not put after it.
  With fewer than two elements the comparator is never called.
\<close>

fun insertSorted :: "(jsv \<Rightarrow> jsv \<Rightarrow> int result) \<Rightarrow> jsv \<Rightarrow> jsv list \<Rightarrow> jsv list result" where
  "insertSorted cmp x [] = Inr [x]"
| "insertSorted cmp x (y # ys) =
     bind (cmp y x) (\<lambda>c.
       if c \<le> 0 then bind (insertSorted cmp x ys) (\<lambda>r. Inr (y # r))
       else Inr (x # y # ys))"

fun sortInto :: "(jsv \<Rightarrow> jsv \<Rightarrow> int result) \<Rightarrow> jsv list \<Rightarrow> jsv list \<Rightarrow> jsv list result" where
  "sortInto cmp acc [] = Inr acc"
| "sortInto cmp acc (x # xs) = bind (insertSorted cmp x acc) (\<lambda>acc'. sortInto cmp acc' xs)"

definition js_sort :: "(jsv \<Rightarrow> jsv \<Rightarrow> int result) \<Rightarrow> jsv list \<Rightarrow> jsv list result" where
  "js_sort cmp xs = sortInto cmp [] xs"

text \<open>The operand \<open>(a.order ?? 0)\<close> of the subtraction, as a number.\<close>

definition orderOf :: "jsv \<Rightarrow> int result" where
  "orderOf a =
     bind (get a ''order'') (\<lambda>v.
     bind (toNumber (nullish v (JNum 0))) (\<lambda>n.
       case n of None \<Rightarrow> Inl NotModelled | Some m \<Rightarrow> Inr m))"

definition compareOrder :: "jsv \<Rightarrow> jsv \<Rightarrow> int result" where
  "compareOrder a b = bind (orderOf a) (\<lambda>x. bind (orderOf b) (\<lambda>y. Inr (x - y)))"

subsection \<open>Legacy MCQ options\<close>

text \<open>The callback of \<open>findIndex\<close>, the same text in both transforms:
  \<open>typeof opt === "string" ? opt : opt?.text || opt?.option || ""\<close>, trimmed and compared
  with the trimmed \<open>correctAnswer || ""\<close>.\<close>

definition optionText :: "jsv \<Rightarrow> jsv" where
  "optionText opt =
     (if typeof opt = ''string'' then opt
      else js_or (js_or (getq opt ''text'') (getq opt ''option'')) (JStr []))"

definition matchesAnswer :: "jsv \<Rightarrow> jsv \<Rightarrow> bool result" where
  "matchesAnswer correctAnswer opt =
     bind (js_trim (optionText opt)) (\<lambda>a.
     bind (js_trim (js_or correctAnswer (JStr []))) (\<lambda>b. Inr (a = b)))"

definition optionsArray :: "jsv \<Rightarrow> jsv list" where
  "optionsArray options = (case options of JArr xs \<Rightarrow> xs | _ \<Rightarrow> [])"

text \<open>The option objects of \<open>transformCourseForBackend\<close>: ids count from 1.\<close>

definition formatOption :: "int \<Rightarrow> jsv \<Rightarrow> nat \<Rightarrow> jsv result" where
  "formatOption correctAnswerIndex opt optIdx =
     Inr (if typeof opt = ''string'' then
            JObj [(''id'', JStr (''opt_'' @ string_of_nat (optIdx + 1))),
                  (''text'', opt),
                  (''isCorrect'', JBool (int optIdx = correctAnswerIndex))]
          else if truthy opt \<and> typeof opt = ''object'' then
            JObj [(''id'', js_or (getq opt ''id'') (JStr (''opt_'' @ string_of_nat (optIdx + 1)))),
                  (''text'', js_or (js_or (getq opt ''text'') (getq opt ''option''))
                              (JStr (''Option '' @ string_of_nat (optIdx + 1)))),
                  (''isCorrect'', JBool (int optIdx = correctAnswerIndex \<or>
                                        getq opt ''isCorrect'' = JBool True))]
          else
            JObj [(''id'', JStr (''opt_'' @ string_of_nat (optIdx + 1))),
                  (''text'', JStr (''Option '' @ string_of_nat (optIdx + 1))),
                  (''isCorrect'', JBool False)])"

subsection \<open>transformCourseForBackend\<close>

text \<open>The MCQ bridging block: \<open>questions\<close> is kept when truthy, built from the legacy
  shape when \<open>question\<close> and \<open>options\<close> are truthy, and left as it is otherwise.\<close>

definition bridgeQuestions :: "jsv \<Rightarrow> jsv \<Rightarrow> jsv result" where
  "bridgeQuestions t sourceData =
     bind (get sourceData ''questions'') (\<lambda>questions.
     bind (get sourceData ''question'') (\<lambda>question.
     bind (get sourceData ''options'') (\<lambda>options.
     bind (get sourceData ''correctAnswer'') (\<lambda>correctAnswer.
       if \<not> truthy questions \<and> truthy question \<and> truthy options then
         bind (if truthy correctAnswer
               then findIndex (matchesAnswer correctAnswer) (optionsArray options) 0
               else Inr (- 1)) (\<lambda>correctAnswerIndex.
         bind (mapIdx (formatOption correctAnswerIndex) (optionsArray options) 0)
           (\<lambda>formattedOptions.
         bind (get t ''id'') (\<lambda>tid.
           Inr (JArr [JObj [(''id'', JStr (js_toString tid @ ''_q1'')),
                            (''question'', question),
                            (''options'', JArr formattedOptions)]]))))
       else Inr questions))))"

text \<open>The callback of \<open>sortedTemplates.map\<close>.\<close>

definition transformTemplate :: "jsv \<Rightarrow> nat \<Rightarrow> jsv result" where
  "transformTemplate t idx =
     bind (get t ''data'') (\<lambda>data.
     bind (get t ''content'') (\<lambda>tcontent.
     let sourceData = js_or data (js_or tcontent (JObj [])) in
     bind (get sourceData ''content'') (\<lambda>c1.
     bind (get sourceData ''description'') (\<lambda>c2.
     bind (get sourceData ''body'') (\<lambda>c3.
     let content = nullish c1 (nullish c2 (nullish c3 (JStr []))) in
     bind (bridgeQuestions t sourceData) (\<lambda>questions.
     bind (get t ''type'') (\<lambda>ty.
     bind (get t ''templateType'') (\<lambda>templateType.
     bind (get sourceData ''subtitle'') (\<lambda>subtitle.
     bind (get sourceData ''videoUrl'') (\<lambda>videoUrl.
       Inr (JObj
         (AList.update ''data''
            (JObj [(''content'', content),
                   (''subtitle'', js_or subtitle JUndefined),
                   (''videoUrl'', js_or videoUrl JUndefined),
                   (''questions'', js_or questions JUndefined)])
         (AList.update ''order'' (JNum (int idx))
         (AList.update ''type'' (js_or ty templateType)
           (spreadObj t)))))))))))))))"

text \<open>The pattern \<open>/^\d+\.\d+\.\d+$/\<close>.\<close>

definition isDigit :: "char \<Rightarrow> bool" where
  "isDigit c = (c \<in> set ''0123456789'')"

definition digitsThen :: "string \<Rightarrow> string option" where
  "digitsThen s =
     (if takeWhile isDigit s = [] then None else Some (dropWhile isDigit s))"

definition semverTest :: "string \<Rightarrow> bool" where
  "semverTest s =
     (case digitsThen s of
        Some (c1 # r1) \<Rightarrow>
          c1 = CHR ''.'' \<and>
          (case digitsThen r1 of
             Some (c2 # r2) \<Rightarrow> c2 = CHR ''.'' \<and> digitsThen r2 = Some []
           | _ \<Rightarrow> False)
      | _ \<Rightarrow> False)"

definition defaultSettings :: jsv where
  "defaultSettings =
     JObj [(''theme'', JStr ''default''), (''autoplay'', JBool False), (''duration'', JUndefined)]"

text \<open>The expression \<open>cloned.templates || cloned.pages || []\<close>, which both transforms
  evaluate on an object whose properties can be read.\<close>

definition sourceTemplatesOf :: "jsv \<Rightarrow> jsv" where
  "sourceTemplatesOf c = js_or (getq c ''templates'') (js_or (getq c ''pages'') (JArr []))"

definition transformCourseForBackend :: "jsv \<Rightarrow> jsv result" where
  "transformCourseForBackend course =
     bind (deepClone course) (\<lambda>c0.
     bind (get c0 ''language'') (\<lambda>language0.
     bind (if \<not> truthy language0 then setProp c0 ''language'' (JStr ''en'') else Inr c0) (\<lambda>c1.
     bind (get c1 ''settings'') (\<lambda>settings0.
     bind (setProp c1 ''settings'' (js_or settings0 defaultSettings)) (\<lambda>cloned.
     let sourceTemplates = sourceTemplatesOf cloned in
     bind (spreadArray sourceTemplates) (\<lambda>copied.
     bind (js_sort compareOrder copied) (\<lambda>sortedTemplates.
     bind (mapIdx transformTemplate sortedTemplates 0) (\<lambda>transformedTemplates.
     bind (get cloned ''navigation'') (\<lambda>navigation.
     let nav = js_or navigation (JObj []) in
     bind (get nav ''linearProgression'') (\<lambda>lp.
     bind (get nav ''lockProgression'') (\<lambda>lock.
     let linearProgression =
           (if typeof lp = ''boolean'' then lp else nullish lock (JBool False)) in
     bind (get cloned ''courseId'') (\<lambda>courseId.
     bind (get cloned ''title'') (\<lambda>title.
     bind (get cloned ''author'') (\<lambda>author.
     bind (get cloned ''version'') (\<lambda>version.
     bind (get cloned ''language'') (\<lambda>language.
     bind (get cloned ''assets'') (\<lambda>assets.
     bind (get nav ''allowSkip'') (\<lambda>allowSkip.
     bind (get nav ''showProgress'') (\<lambda>showProgress.
     bind (get cloned ''settings'') (\<lambda>settings.
       Inr (JObj
         [(''courseId'', courseId),
          (''title'', title),
          (''author'', js_or author (JStr ''Unknown'')),
          (''version'',
             (if truthy version \<and> semverTest (js_toString version) then version
              else JStr ''1.0.0'')),
          (''language'', js_or language (JStr ''en'')),
          (''templates'', JArr transformedTemplates),
          (''assets'', js_or assets (JArr [])),
          (''navigation'',
             JObj [(''allowSkip'', nullish allowSkip (JBool True)),
                   (''showProgress'', nullish showProgress (JBool True)),
                   (''linearProgression'', linearProgression)]),
          (''settings'',
             js_or settings
               (JObj [(''theme'', JStr ''default''), (''autoplay'', JBool False)]))]
       )))))))))))))))))))))"

subsection \<open>transformCourseForExport\<close>








section \<open>Notions of the specification\<close>

text \<open>The three buckets of the merge, by the \<open>type\<close> tag of an error.\<close>

datatype bucket = Structural | BusinessRule | Other

definition bucketOf :: "jsv \<Rightarrow> bucket" where
  "bucketOf err =
     (if getq err ''type'' = JStr ''value_error'' \<or> getq err ''type'' = JStr ''type_error''
      then Structural
      else if getq err ''type'' = JStr ''business_rule_error'' then BusinessRule
      else Other)"

text \<open>The key by which a deduplication on field plus message would identify errors.\<close>

definition fieldMessage :: "jsv \<Rightarrow> jsv \<times> jsv" where
  "fieldMessage err = (getq err ''field'', getq err ''message'')"

text \<open>An error object: anything whose properties can be read.\<close>

definition readable :: "jsv \<Rightarrow> bool" where
  "readable v = (v \<noteq> JUndefined \<and> v \<noteq> JNull)"

text \<open>Sample environment: a clock and an id source that always answer the same.\<close>

definition fixedClock :: "nat \<Rightarrow> string" where
  "fixedClock i = ''2026-01-01T00:00:00.000Z''"

definition fixedStamp :: "nat \<Rightarrow> string" where
  "fixedStamp i = ''1767225600000-0.5''"


text \<open>The sort key of a template: the number that \<open>(t.order ?? 0)\<close> stands for.\<close>

definition orderKey :: "jsv \<Rightarrow> int" where
  "orderKey t = (case orderOf t of Inr k \<Rightarrow> k | Inl e \<Rightarrow> 0)"

text \<open>\<open>p\<close> occurs in \<open>s\<close> as a contiguous substring.\<close>

definition hasSubstring :: "string \<Rightarrow> string \<Rightarrow> bool" where
  "hasSubstring s p = (\<exists>ps ss. s = ps @ p @ ss)"

subsection \<open>Sample courses\<close>

text \<open>A course that conforms to the declared \<open>Course\<close> and \<open>Page\<close> types (\<open>content\<close> is a
  \<open>Record<string, any>\<close>), with a number as the body of a text page.\<close>

definition numericBodyCourse :: jsv where
  "numericBodyCourse =
     JObj [(''courseId'', JStr ''c1''), (''title'', JStr ''Course''), (''author'', JStr ''Ann''),
           (''status'', JStr ''draft''),
           (''pages'',
              JArr [JObj [(''id'', JStr ''p1''), (''templateType'', JStr ''content-text''),
                          (''title'', JStr ''Intro''),
                          (''content'', JObj [(''body'', JNum 42)]),
                          (''order'', JNum 0),
                          (''lastModified'', JStr ''2026-01-01T00:00:00.000Z'')]])]"

text \<open>A course in the API shape of a page: the payload is under \<open>data\<close>, and there is no
  \<open>content\<close>.\<close>

definition noContentCourse :: jsv where
  "noContentCourse =
     JObj [(''courseId'', JStr ''c1''), (''title'', JStr ''Course''), (''author'', JStr ''Ann''),
           (''status'', JStr ''draft''),
           (''pages'',
              JArr [JObj [(''id'', JStr ''p1''), (''type'', JStr ''mcq''),
                          (''title'', JStr ''Quiz''),
                          (''data'', JObj [(''question'', JStr ''Q'')]),
                          (''order'', JNum 0)]])]"

text \<open>An empty title and no pages; an empty title and one MCQ page with a single option.\<close>

definition noPagesCourse :: jsv where
  "noPagesCourse =
     JObj [(''courseId'', JStr ''c1''), (''title'', JStr []), (''status'', JStr ''draft''),
           (''pages'', JArr [])]"

definition oneOptionCourse :: jsv where
  "oneOptionCourse =
     JObj [(''courseId'', JStr ''c1''), (''title'', JStr []), (''status'', JStr ''draft''),
           (''pages'',
              JArr [JObj [(''id'', JStr ''p1''), (''templateType'', JStr ''mcq''),
                          (''title'', JStr ''Quiz''),
                          (''content'', JObj [(''options'', JArr [JStr ''A''])]),
                          (''order'', JNum 0),
                          (''lastModified'', JStr ''2026-01-01T00:00:00.000Z'')]])]"

text \<open>Three pages with the order values 5, 5 and 2.\<close>

definition course552 :: jsv where
  "course552 =
     JObj [(''courseId'', JStr ''c1''), (''title'', JStr ''Course''),
           (''pages'',
              JArr [JObj [(''id'', JStr ''a''), (''order'', JNum 5)],
                    JObj [(''id'', JStr ''b''), (''order'', JNum 5)],
                    JObj [(''id'', JStr ''c''), (''order'', JNum 2)]])]"

text \<open>Legacy MCQ pages: one with the option text twice, one with the options A, B, C.\<close>

definition duplicateOptionsPage :: jsv where
  "duplicateOptionsPage =
     JObj [(''id'', JStr ''p1''), (''type'', JStr ''mcq''), (''order'', JNum 0),
           (''data'', JObj [(''question'', JStr ''Q''),
                            (''options'', JArr [JStr ''B'', JStr ''B'']),
                            (''correctAnswer'', JStr ''B'')])]"

definition legacyPage :: jsv where
  "legacyPage =
     JObj [(''id'', JStr ''p1''), (''type'', JStr ''mcq''), (''order'', JNum 0),
           (''data'', JObj [(''question'', JStr ''Q''),
                            (''options'', JArr [JStr ''A'', JStr ''B'', JStr ''C'']),
                            (''correctAnswer'', JStr ''B'')])]"

text \<open>The index of the first option whose trimmed text is the trimmed answer, or \<open>-1\<close>.\<close>

definition firstMatch :: "string \<Rightarrow> string list \<Rightarrow> int" where
  "firstMatch ca opts =
     (if trim ca \<in> set (map trim opts)
      then int (length (takeWhile (\<lambda>opt. trim opt \<noteq> trim ca) opts))
      else - 1)"


subsection \<open>JSON data and the parts of a transformed course\<close>

text \<open>A value represents a JavaScript value when the keys of each of its objects are
  distinct.\<close>

fun wf_json :: "jsv \<Rightarrow> bool" where
  "wf_json (JArr xs) = list_all wf_json xs"
| "wf_json (JObj kvs) = (distinct (map fst kvs) \<and> list_all (\<lambda>kv. wf_json (snd kv)) kvs)"
| "wf_json v = True"

text \<open>A value is JSON data when undefined occurs nowhere in it.\<close>

fun clean :: "jsv \<Rightarrow> bool" where
  "clean (JArr xs) = list_all clean xs"
| "clean (JObj kvs) = list_all (\<lambda>kv. clean (snd kv)) kvs"
| "clean JUndefined = False"
| "clean v = True"

text \<open>Undefined, or JSON data: the values that \<open>jsonClone\<close> leaves as they are.\<close>

definition cu :: "jsv \<Rightarrow> bool" where
  "cu v = (v = JUndefined \<or> clean v)"

text \<open>The properties of the clone of an object, as \<open>jsonClone\<close> computes them.\<close>

abbreviation cloneEntries :: "(string \<times> jsv) list \<Rightarrow> (string \<times> jsv) list" where
  "cloneEntries kvs \<equiv>
     map (\<lambda>kv. (fst kv, jsonClone (snd kv))) (filter (\<lambda>kv. snd kv \<noteq> JUndefined) kvs)"

text \<open>The source data of a template and the content derived from it, as
  \<open>transformTemplate\<close> computes them.\<close>

definition sourceDataOf :: "jsv \<Rightarrow> jsv" where
  "sourceDataOf t = js_or (getq t ''data'') (js_or (getq t ''content'') (JObj []))"

definition contentOf :: "jsv \<Rightarrow> jsv" where
  "contentOf sd =
     nullish (getq sd ''content'')
       (nullish (getq sd ''description'') (nullish (getq sd ''body'') (JStr [])))"

text \<open>The version and the navigation object of the result, as
  \<open>transformCourseForBackend\<close> computes them.\<close>

definition versionOf :: "jsv \<Rightarrow> jsv" where
  "versionOf v = (if truthy v \<and> semverTest (js_toString v) then v else JStr ''1.0.0'')"

definition navigationOf :: "jsv \<Rightarrow> jsv" where
  "navigationOf nav =
     JObj [(''allowSkip'', nullish (getq nav ''allowSkip'') (JBool True)),
           (''showProgress'', nullish (getq nav ''showProgress'') (JBool True)),
           (''linearProgression'',
              (if typeof (getq nav ''linearProgression'') = ''boolean''
               then getq nav ''linearProgression''
               else nullish (getq nav ''lockProgression'') (JBool False)))]"

text \<open>The course with a number as \<open>lockProgression\<close>.\<close>

definition lockNumberCourse :: jsv where
  "lockNumberCourse =
     JObj [(''courseId'', JStr ''c1''), (''title'', JStr ''Course''),
           (''navigation'', JObj [(''lockProgression'', JNum 1)])]"

text \<open>A course with \<open>lockProgression\<close> set, no settings, and two pages out of order,
  the second a legacy MCQ page.\<close>

definition lockedCourse :: jsv where
  "lockedCourse =
     JObj [(''courseId'', JStr ''c1''), (''title'', JStr ''Course''),
           (''navigation'', JObj [(''lockProgression'', JBool True)]),
           (''pages'',
              JArr [JObj [(''id'', JStr ''a''), (''order'', JNum 5),
                          (''content'', JObj [(''body'', JStr ''Hi'')])],
                    JObj [(''id'', JStr ''b''), (''order'', JNum 2), (''type'', JStr ''mcq''),
                          (''content'',
                             JObj [(''question'', JStr ''Q''),
                                   (''options'', JArr [JStr ''A'', JStr ''B'']),
                                   (''correctAnswer'', JStr ''B'')])]])]"

subsection \<open>MCQ pages and their questions\<close>





section \<open>Properties\<close>

subsection \<open>Evaluation helpers\<close>

lemma number_toString_small [simp]: "\<bar>i\<bar> < 2 ^ 53 \<Longrightarrow> number_toString i = string_of_int i"
  by (simp add: number_toString_def)

lemma bind_Inr [simp]: "bind (Inr x) f = f x"
  by (simp add: bind_def)

lemma bind_Inl [simp]: "bind (Inl e) f = Inl e"
  by (simp add: bind_def)

lemma bind_eq_Inr: "bind m f = Inr y \<longleftrightarrow> (\<exists>x. m = Inr x \<and> f x = Inr y)"
  by (cases m) simp_all

lemma get_readable: "readable v \<Longrightarrow> get v k = Inr (getq v k)"
  by (cases v) (simp_all add: readable_def getq_def)

lemma includes_iff: "js_includes s p \<longleftrightarrow> (\<exists>ps ss. s = ps @ p @ ss)"
  by (simp add: js_includes_def sublist_def)

subsection \<open>Severity\<close>

lemma categorizeErrors_nth:
  "i < length errs \<Longrightarrow>
   categorizeErrors stamp errs ! i =
     (errs ! i)\<lparr>err_id := category_name (category (errs ! i)) @ ''-'' @ stamp i,
                level := determineLevel (errs ! i)\<rparr>"
  by (simp add: categorizeErrors_def nth_enumerate_eq)

lemma length_categorizeErrors [simp]: "length (categorizeErrors stamp errs) = length errs"
  by (simp add: categorizeErrors_def)

lemma hasSubstring_eval: "hasSubstring s p = sublist p s"
  by (simp add: hasSubstring_def sublist_def)

text \<open>
  Claim C1, as the code has it. For every error that passes the categorization stage, the
  final level depends on category and field alone: category schema gives level error;
  category business gives error exactly when the field path contains the substring
  \<open>required\<close>, and warning otherwise; every other category gives info, whatever level the
  producing validator had set.
\<close>

theorem categorizeErrors_level:
  assumes "i < length errs"
  shows "level (categorizeErrors stamp errs ! i) =
           (if category (errs ! i) = Schema then Error
            else if category (errs ! i) = Business then
              (if hasSubstring (field (errs ! i)) ''required'' then Error else Warning)
            else Info)"
  using assms
  by (simp add: categorizeErrors_nth determineLevel_def hasSubstring_eval js_includes_def)

theorem categorizeErrors_level_witness:
  "level (categorizeErrors fixedStamp
            [\<lparr>err_id = [], field = ''course.pages.required'', category = Business,
              message = ''m'', level = Warning, ctx = JUndefined\<rparr>,
             \<lparr>err_id = [], field = ''pages[0].content.body'', category = Business,
              message = ''m'', level = Error, ctx = JUndefined\<rparr>] ! 0) = Error \<and>
   level (categorizeErrors fixedStamp
            [\<lparr>err_id = [], field = ''course.pages.required'', category = Business,
              message = ''m'', level = Warning, ctx = JUndefined\<rparr>,
             \<lparr>err_id = [], field = ''pages[0].content.body'', category = Business,
              message = ''m'', level = Error, ctx = JUndefined\<rparr>] ! 1) = Warning"
  using categorizeErrors_level [of 0 _ fixedStamp] categorizeErrors_level [of 1 _ fixedStamp]
  by (simp add: hasSubstring_eval sublist_code)

text \<open>
  Claim C1 as stated lets the producing validator override the default of the other
  categories. A navigation error that its validator produced at level error leaves
  \<open>determineLevel\<close> at level info.
\<close>

theorem determineLevel_override_counterexample:
  "determineLevel
     \<lparr>err_id = [], field = ''settings.navigation.mode'', category = Navigation,
      message = ''Invalid navigation mode'', level = Error, ctx = JUndefined\<rparr> = Info \<and>
   level
     \<lparr>err_id = [], field = ''settings.navigation.mode'', category = Navigation,
      message = ''Invalid navigation mode'', level = Error, ctx = JUndefined\<rparr> = Error"
  by (simp add: determineLevel_def)

subsection \<open>Field dispatch\<close>

lemma find_pages:
  assumes "startsWith fieldPath ''pages[''"
  shows "find (\<lambda>v. supportsField v fieldPath) defaultValidators = Some TemplateValidator"
proof -
  have "fieldPath \<notin> set [''title'', ''description'', ''author'', ''version'']"
    using assms by (auto simp: startsWith_def)
  then show ?thesis
    using assms
    by (simp add: defaultValidators_def CourseValidator_supportsField_def
        TemplateValidator_supportsField_def)
qed

text \<open>
  Claim C10. For every course, every field path that begins with \<open>pages[\<close> and every
  value, the template validator is the first registered validator that supports the path,
  and the field validation of the service returns the empty error list.
\<close>

theorem validateField_pages_empty:
  assumes "startsWith fieldPath ''pages[''"
  shows "find (\<lambda>v. supportsField v fieldPath) defaultValidators = Some TemplateValidator \<and>
         service_validateField defaultValidators now course fieldPath v = Inr []"
  using find_pages [OF assms]
  by (simp add: service_validateField_def TemplateValidator_validateField_def)

theorem validateField_pages_empty_witness:
  "startsWith ''pages[0].content.body'' ''pages['' \<and>
   find (\<lambda>v. supportsField v ''pages[0].content.body'') defaultValidators = Some TemplateValidator \<and>
   service_validateField defaultValidators (fixedClock 0) JNull ''pages[0].content.body'' (JNum 42) = Inr []"
proof -
  have h: "startsWith ''pages[0].content.body'' ''pages[''"
    by (simp add: startsWith_def)
  show ?thesis
    using h validateField_pages_empty [OF h] by simp
qed

subsection \<open>Merge\<close>

lemma bucketOf_cases:
  "bucketOf e = Structural \<longleftrightarrow>
     getq e ''type'' = JStr ''value_error'' \<or> getq e ''type'' = JStr ''type_error''"
  "bucketOf e = BusinessRule \<longleftrightarrow> getq e ''type'' = JStr ''business_rule_error''"
  by (auto simp: bucketOf_def)

lemma bucketErrors_filter:
  assumes "\<forall>e \<in> set errs. readable e"
  shows "bucketErrors errs (s, b, o') =
           Inr (s @ filter (\<lambda>e. bucketOf e = Structural) errs,
                b @ filter (\<lambda>e. bucketOf e = BusinessRule) errs,
                o' @ filter (\<lambda>e. bucketOf e = Other) errs)"
  using assms
proof (induction errs arbitrary: s b o')
  case Nil
  then show ?case by simp
next
  case (Cons e errs)
  then have r: "get e ''type'' = Inr (getq e ''type'')"
    by (simp add: get_readable)
  show ?case
    using Cons by (simp add: r bucketOf_def)
qed

lemma mergeValidationErrors_filter:
  assumes "\<forall>e \<in> set (clientErrors @ serverErrors). readable e"
  shows "mergeValidationErrors clientErrors serverErrors =
           Inr (filter (\<lambda>e. bucketOf e = Structural) (clientErrors @ serverErrors) @
                filter (\<lambda>e. bucketOf e = BusinessRule) (clientErrors @ serverErrors) @
                filter (\<lambda>e. bucketOf e = Other) (clientErrors @ serverErrors))"
  using bucketErrors_filter [OF assms, of "[]" "[]" "[]"]
  by (simp add: mergeValidationErrors_def Let_def)

text \<open>
  Claim C2. When the client result is merged with the server result, every combined error
  is classified by its \<open>type\<close> tag (\<open>value_error\<close> and \<open>type_error\<close> structural,
  \<open>business_rule_error\<close> business, anything else other), and the final list is the
  structural errors, then the business errors, then the others, each in their order of
  arrival. Client errors, which carry no tag, all land among the others.
\<close>

theorem merge_order:
  assumes "\<forall>e \<in> set (clientErrors @ serverErrors). readable e"
  shows "mergeValidationErrors clientErrors serverErrors =
           Inr (filter (\<lambda>e. bucketOf e = Structural) (clientErrors @ serverErrors) @
                filter (\<lambda>e. bucketOf e = BusinessRule) (clientErrors @ serverErrors) @
                filter (\<lambda>e. bucketOf e = Other) (clientErrors @ serverErrors)) \<and>
         ((\<forall>e \<in> set clientErrors. getq e ''type'' = JUndefined) \<longrightarrow>
          mergeValidationErrors clientErrors serverErrors =
            Inr (filter (\<lambda>e. bucketOf e = Structural) serverErrors @
                 filter (\<lambda>e. bucketOf e = BusinessRule) serverErrors @
                 clientErrors @ filter (\<lambda>e. bucketOf e = Other) serverErrors))"
proof (intro conjI impI)
  show "mergeValidationErrors clientErrors serverErrors =
           Inr (filter (\<lambda>e. bucketOf e = Structural) (clientErrors @ serverErrors) @
                filter (\<lambda>e. bucketOf e = BusinessRule) (clientErrors @ serverErrors) @
                filter (\<lambda>e. bucketOf e = Other) (clientErrors @ serverErrors))"
    by (rule mergeValidationErrors_filter [OF assms])
next
  assume "\<forall>e \<in> set clientErrors. getq e ''type'' = JUndefined"
  then have c: "\<forall>e \<in> set clientErrors. bucketOf e = Other"
    by (simp add: bucketOf_def)
  then have "filter (\<lambda>e. bucketOf e = Structural) clientErrors = []"
    "filter (\<lambda>e. bucketOf e = BusinessRule) clientErrors = []"
    "filter (\<lambda>e. bucketOf e = Other) clientErrors = clientErrors"
    by (simp_all add: filter_empty_conv filter_id_conv)
  then show "mergeValidationErrors clientErrors serverErrors =
            Inr (filter (\<lambda>e. bucketOf e = Structural) serverErrors @
                 filter (\<lambda>e. bucketOf e = BusinessRule) serverErrors @
                 clientErrors @ filter (\<lambda>e. bucketOf e = Other) serverErrors)"
    by (simp add: mergeValidationErrors_filter [OF assms])
qed

theorem merge_order_witness:
  "mergeValidationErrors
     [JObj [(''level'', JStr ''warning''), (''message'', JStr ''Zeta'')]]
     [JObj [(''type'', JStr ''value_error''), (''message'', JStr ''Beta'')],
      JObj [(''type'', JStr ''business_rule_error''), (''message'', JStr ''Alpha'')]] =
   Inr [JObj [(''type'', JStr ''value_error''), (''message'', JStr ''Beta'')],
        JObj [(''type'', JStr ''business_rule_error''), (''message'', JStr ''Alpha'')],
        JObj [(''level'', JStr ''warning''), (''message'', JStr ''Zeta'')]]"
  using merge_order
    [of "[JObj [(''level'', JStr ''warning''), (''message'', JStr ''Zeta'')]]"
        "[JObj [(''type'', JStr ''value_error''), (''message'', JStr ''Beta'')],
          JObj [(''type'', JStr ''business_rule_error''), (''message'', JStr ''Alpha'')]]"]
  by (simp add: readable_def getq_def bucketOf_def)

text \<open>
  Claim C3 as stated promises at most one merged error per field and message. The same
  error reported by the client and by the server stays in the merged list twice.
\<close>

theorem merge_keeps_duplicates_counterexample:
  "mergeValidationErrors
     [JObj [(''field'', JStr ''title''), (''message'', JStr ''Title is required'')]]
     [JObj [(''field'', JStr ''title''), (''message'', JStr ''Title is required'')]] =
   Inr [JObj [(''field'', JStr ''title''), (''message'', JStr ''Title is required'')],
        JObj [(''field'', JStr ''title''), (''message'', JStr ''Title is required'')]] \<and>
   \<not> distinct (map fieldMessage
     [JObj [(''field'', JStr ''title''), (''message'', JStr ''Title is required'')],
      JObj [(''field'', JStr ''title''), (''message'', JStr ''Title is required'')]])"
  by (simp add: mergeValidationErrors_def)

text \<open>
  Claim C3, as the code has it. The merge removes nothing: for every field and message,
  the merged list holds as many errors with that pair as the client list and the server
  list hold together.
\<close>

theorem merge_no_dedup:
  assumes "\<forall>e \<in> set (clientErrors @ serverErrors). readable e"
  shows "\<exists>merged. mergeValidationErrors clientErrors serverErrors = Inr merged \<and>
           (\<forall>k. length (filter (\<lambda>e. fieldMessage e = k) merged) =
                  length (filter (\<lambda>e. fieldMessage e = k) clientErrors) +
                  length (filter (\<lambda>e. fieldMessage e = k) serverErrors))"
proof -
  let ?m = "clientErrors @ serverErrors"
  have split: "length (filter P (filter (\<lambda>e. bucketOf e = Structural) xs @
                 filter (\<lambda>e. bucketOf e = BusinessRule) xs @
                 filter (\<lambda>e. bucketOf e = Other) xs)) = length (filter P xs)" for P xs
  proof (induction xs)
    case Nil
    then show ?case by simp
  next
    case (Cons x xs)
    then show ?case by (cases "bucketOf x") simp_all
  qed
  have "\<forall>k. length (filter (\<lambda>e. fieldMessage e = k)
            (filter (\<lambda>e. bucketOf e = Structural) ?m @
             filter (\<lambda>e. bucketOf e = BusinessRule) ?m @
             filter (\<lambda>e. bucketOf e = Other) ?m)) =
          length (filter (\<lambda>e. fieldMessage e = k) clientErrors) +
          length (filter (\<lambda>e. fieldMessage e = k) serverErrors)"
    by (simp only: split) simp
  then show ?thesis
    using mergeValidationErrors_filter [OF assms] by blast
qed

theorem merge_no_dedup_witness:
  "\<exists>merged.
     mergeValidationErrors
       [JObj [(''field'', JStr ''title''), (''message'', JStr ''Title is required'')]]
       [JObj [(''field'', JStr ''title''), (''message'', JStr ''Title is required''),
              (''type'', JStr ''value_error'')]] = Inr merged \<and>
     length (filter (\<lambda>e. fieldMessage e = (JStr ''title'', JStr ''Title is required'')) merged) = 2"
proof -
  obtain merged where m:
    "mergeValidationErrors
       [JObj [(''field'', JStr ''title''), (''message'', JStr ''Title is required'')]]
       [JObj [(''field'', JStr ''title''), (''message'', JStr ''Title is required''),
              (''type'', JStr ''value_error'')]] = Inr merged"
    and k: "\<forall>k. length (filter (\<lambda>e. fieldMessage e = k) merged) =
       length (filter (\<lambda>e. fieldMessage e = k)
         [JObj [(''field'', JStr ''title''), (''message'', JStr ''Title is required'')]]) +
       length (filter (\<lambda>e. fieldMessage e = k)
         [JObj [(''field'', JStr ''title''), (''message'', JStr ''Title is required''),
              (''type'', JStr ''value_error'')]])"
    using merge_no_dedup
      [of "[JObj [(''field'', JStr ''title''), (''message'', JStr ''Title is required'')]]"
          "[JObj [(''field'', JStr ''title''), (''message'', JStr ''Title is required''),
              (''type'', JStr ''value_error'')]]"]
    by (auto simp: readable_def)
  show ?thesis
    using m k by (simp add: fieldMessage_def getq_def)
qed

subsection \<open>Decimal text\<close>

lemma string_of_nat_numeral [simp]:
  "string_of_nat (numeral k) =
     (if (numeral k :: nat) < 10 then [digit_char (numeral k)]
      else string_of_nat (numeral k div 10) @ [digit_char (numeral k mod 10)])"
  by (subst string_of_nat.simps) simp

lemma string_of_nat_0 [simp]: "string_of_nat 0 = ''0''"
  by (simp add: string_of_nat.simps digit_char_def)

lemma string_of_nat_1 [simp]: "string_of_nat (Suc 0) = ''1''"
  by (simp add: string_of_nat.simps digit_char_def)

lemma digit_char_simps [simp]:
  "digit_char 0 = CHR ''0''" "digit_char 1 = CHR ''1''" "digit_char 2 = CHR ''2''"
  "digit_char 3 = CHR ''3''" "digit_char 4 = CHR ''4''" "digit_char 5 = CHR ''5''"
  "digit_char 6 = CHR ''6''" "digit_char 7 = CHR ''7''" "digit_char 8 = CHR ''8''"
  "digit_char 9 = CHR ''9''"
  by (simp_all add: digit_char_def)

lemma digit_char_in: "d < 10 \<Longrightarrow> digit_char d \<in> set ''0123456789''"
proof -
  assume "d < 10"
  then have "d \<in> {0, 1, 2, 3, 4, 5, 6, 7, 8, 9}" by auto
  then show ?thesis by (auto simp: digit_char_def)
qed

lemma string_of_nat_digits: "set (string_of_nat n) \<subseteq> set ''0123456789''"
proof (induction n rule: string_of_nat.induct)
  case (1 n)
  show ?case
  proof (cases "n < 10")
    case True
    then show ?thesis
      using digit_char_in [of n] by (subst string_of_nat.simps) simp
  next
    case False
    have "n mod 10 < 10" by simp
    then have d: "digit_char (n mod 10) \<in> set ''0123456789''"
      by (rule digit_char_in)
    have "set (string_of_nat (n div 10)) \<subseteq> set ''0123456789''"
      using 1 False by simp
    then show ?thesis
      using d False by (subst string_of_nat.simps) simp
  qed
qed

lemma pageField_no_q:
  assumes "CHR ''q'' \<notin> set rest"
  shows "CHR ''q'' \<notin> set (pageField i rest)"
  using assms string_of_nat_digits [of i] by (auto simp: pageField_def)

lemma no_q_not_required: "CHR ''q'' \<notin> set s \<Longrightarrow> \<not> js_includes s ''required''"
proof
  assume a: "CHR ''q'' \<notin> set s" and "js_includes s ''required''"
  then have "set ''required'' \<subseteq> set s"
    by (auto simp: js_includes_def dest: set_mono_sublist)
  then show False using a by simp
qed

subsection \<open>Validators that throw\<close>

lemmas validator_defs =
  validateCourse_def defaultValidators_def CourseValidator_validate_def
  TemplateValidator_validate_def NavigationValidator_validate_def
  validatePage_def normalizeTemplateType_def validateMCQ_def validateContentText_def
  validateWelcome_def validatePageFlow_def validateNavigationSettings_def
  orderMismatch_def branching_def missingTarget_def setHas_def
  blank_def longer_def js_gt_def js_lt_def trim_def isWhiteSpace_def getq_def
  mkResult_def createError_def mkError_def i18n_t_def en_def lengthContext_def pageField_def
  categorizeErrors_def determineLevel_def js_includes_def sublist_code

text \<open>
  Claim C4 fails on the code. A text page whose body is a number makes \<open>body.trim()\<close> throw,
  and an MCQ page without a \<open>content\<close> payload makes the read of \<open>content.question\<close> throw:
  the template validator rejects, and with it the whole validation pass, instead of
  returning a result.
\<close>

theorem validators_throw:
  "TemplateValidator_validate now numericBodyCourse = Inl TypeError \<and>
   validateCourse defaultValidators clock stamp numericBodyCourse = Inl TypeError \<and>
   TemplateValidator_validate now noContentCourse = Inl TypeError \<and>
   validateCourse defaultValidators clock stamp noContentCourse = Inl TypeError"
  by (simp add: numericBodyCourse_def noContentCourse_def validator_defs)

subsection \<open>The blocking case\<close>

lemma validateCourse_default:
  assumes "validateCourse defaultValidators clock stamp course = Inr r"
  shows "\<exists>r1 r2 r3.
           CourseValidator_validate (clock 0) course = Inr r1 \<and>
           TemplateValidator_validate (clock (Suc 0)) course = Inr r2 \<and>
           NavigationValidator_validate (clock (Suc (Suc 0))) course = Inr r3 \<and>
           errors r = categorizeErrors stamp (errors r1 @ errors r2 @ errors r3) \<and>
           valid r = (errors r1 @ errors r2 @ errors r3 = [])"
  using assms
  by (auto simp: validateCourse_def defaultValidators_def bind_eq_Inr Let_def)

lemma categorizeErrors_mem:
  assumes "e \<in> set errs"
  shows "\<exists>e' \<in> set (categorizeErrors stamp errs).
           field e' = field e \<and> level e' = determineLevel e"
proof -
  obtain i where i: "i < length errs" "errs ! i = e"
    using assms by (auto simp: in_set_conv_nth)
  then have "categorizeErrors stamp errs ! i \<in> set (categorizeErrors stamp errs)"
    by simp
  moreover have "field (categorizeErrors stamp errs ! i) = field e"
    "level (categorizeErrors stamp errs ! i) = determineLevel e"
    using i by (simp_all add: categorizeErrors_nth)
  ultimately show ?thesis by blast
qed

lemma CourseValidator_title:
  assumes "CourseValidator_validate now course = Inr r1"
    and "get course ''title'' = Inr (JStr [])"
  shows "createError ''course.title'' Schema ''Course title is required''
           (JObj [(''suggestion'', JStr ''Add a descriptive title for your course'')])
         \<in> set (errors r1)"
  using assms
  by (auto simp: CourseValidator_validate_def bind_eq_Inr blank_def mkResult_def i18n_t_def
      en_def)

lemma CourseValidator_pages:
  assumes "CourseValidator_validate now course = Inr r1"
    and "get course ''pages'' = Inr (JArr [])"
  shows "createError ''course.pages'' Business ''At least one page is required''
           (JObj [(''suggestion'', JStr ''Add a page from templates'')])
         \<in> set (errors r1)"
  using assms
  by (auto simp: CourseValidator_validate_def bind_eq_Inr mkResult_def i18n_t_def en_def)

lemma forEach_nth:
  assumes "forEach f xs k = Inr es" and "i < length xs"
  shows "\<exists>ei. f (xs ! i) (k + i) = Inr ei \<and> set ei \<subseteq> set es"
  using assms
proof (induction xs arbitrary: k i es)
  case Nil
  then show ?case by simp
next
  case (Cons x xs)
  from Cons.prems(1) obtain e0 rest where
    e0: "f x k = Inr e0" and rest: "forEach f xs (Suc k) = Inr rest" and es: "es = e0 @ rest"
    by (auto simp: bind_eq_Inr)
  show ?case
  proof (cases i)
    case 0
    then show ?thesis using e0 es by simp
  next
    case (Suc j)
    then have "j < length xs" using Cons.prems(2) by simp
    from Cons.IH [OF rest this] obtain ei where
      "f (xs ! j) (Suc k + j) = Inr ei" "set ei \<subseteq> set rest" by blast
    then show ?thesis using Suc es by auto
  qed
qed

lemma validatePage_options:
  assumes "validatePage page i = Inr ei"
    and "normalizeTemplateType page = Inr (JStr ''mcq'')"
    and "get page ''content'' = Inr c"
    and "get c ''options'' = Inr (JArr opts)"
    and "length opts < 2"
  shows "mkError (pageField i ''.content.options'') Business
           (''MCQ page '' @ string_of_nat (i + 1) @ '' must have at least 2 options'') Error
         \<in> set ei"
  using assms
  by (auto simp: validatePage_def validateMCQ_def bind_eq_Inr js_lt_def)

lemma TemplateValidator_options:
  assumes "TemplateValidator_validate now course = Inr r2"
    and "get course ''pages'' = Inr (JArr ps)"
    and "i < length ps"
    and "normalizeTemplateType (ps ! i) = Inr (JStr ''mcq'')"
    and "get (ps ! i) ''content'' = Inr c"
    and "get c ''options'' = Inr (JArr opts)"
    and "length opts < 2"
  shows "mkError (pageField i ''.content.options'') Business
           (''MCQ page '' @ string_of_nat (i + 1) @ '' must have at least 2 options'') Error
         \<in> set (errors r2)"
proof -
  from assms(1,2) obtain errs where
    fe: "forEach validatePage ps 0 = Inr errs" and r2: "errors r2 = errs"
    by (auto simp: TemplateValidator_validate_def bind_eq_Inr mkResult_def)
  from forEach_nth [OF fe assms(3)] obtain ei where
    ei: "validatePage (ps ! i) i = Inr ei" "set ei \<subseteq> set errs" by auto
  from validatePage_options [OF ei(1) assms(4-7)] ei(2) r2 show ?thesis by blast
qed

lemma blocking_case_eval:
  "validateCourse defaultValidators fixedClock fixedStamp noPagesCourse =
     Inr \<lparr>valid = False,
          errors =
            [\<lparr>err_id = ''schema-1767225600000-0.5'', field = ''course.title'',
              category = Schema, message = ''Course title is required'', level = Error,
              ctx = JObj [(''suggestion'', JStr ''Add a descriptive title for your course'')]\<rparr>,
             \<lparr>err_id = ''schema-1767225600000-0.5'', field = ''course.author'',
              category = Schema, message = ''Course author is required'', level = Error,
              ctx = JObj [(''suggestion'', JStr ''Add the course author name'')]\<rparr>,
             \<lparr>err_id = ''business-1767225600000-0.5'', field = ''course.pages'',
              category = Business, message = ''At least one page is required'',
              level = Warning,
              ctx = JObj [(''suggestion'', JStr ''Add a page from templates'')]\<rparr>],
          timestamp = ''2026-01-01T00:00:00.000Z''\<rparr>"
  by (simp add: noPagesCourse_def validator_defs fixedClock_def fixedStamp_def)

lemma blocking_case_eval_mcq:
  "validateCourse defaultValidators fixedClock fixedStamp oneOptionCourse =
     Inr \<lparr>valid = False,
          errors =
            [\<lparr>err_id = ''schema-1767225600000-0.5'', field = ''course.title'',
              category = Schema, message = ''Course title is required'', level = Error,
              ctx = JObj [(''suggestion'', JStr ''Add a descriptive title for your course'')]\<rparr>,
             \<lparr>err_id = ''schema-1767225600000-0.5'', field = ''course.author'',
              category = Schema, message = ''Course author is required'', level = Error,
              ctx = JObj [(''suggestion'', JStr ''Add the course author name'')]\<rparr>,
             \<lparr>err_id = ''business-1767225600000-0.5'', field = ''pages[0].content.question'',
              category = Business, message = ''MCQ page 1 must have a question'',
              level = Warning, ctx = JUndefined\<rparr>,
             \<lparr>err_id = ''business-1767225600000-0.5'', field = ''pages[0].content.options'',
              category = Business, message = ''MCQ page 1 must have at least 2 options'',
              level = Warning, ctx = JUndefined\<rparr>,
             \<lparr>err_id = ''business-1767225600000-0.5'',
              field = ''pages[0].content.correctAnswer'', category = Business,
              message = ''MCQ page 1 must have a correct answer'',
              level = Warning, ctx = JUndefined\<rparr>],
          timestamp = ''2026-01-01T00:00:00.000Z''\<rparr>"
  by (simp add: oneOptionCourse_def validator_defs fixedClock_def fixedStamp_def)

text \<open>
  Claim C9 as stated expects every error of the blocking case at final level error. With an
  empty title and no pages the pass returns three errors and \<open>valid = False\<close>, but the
  error on \<open>course.pages\<close> ends at level warning; with an empty title and an MCQ page with
  one option it returns five errors, three of them at level warning.
\<close>

theorem blocking_case_counterexample:
  "validateCourse defaultValidators fixedClock fixedStamp noPagesCourse =
     Inr \<lparr>valid = False,
          errors =
            [\<lparr>err_id = ''schema-1767225600000-0.5'', field = ''course.title'',
              category = Schema, message = ''Course title is required'', level = Error,
              ctx = JObj [(''suggestion'', JStr ''Add a descriptive title for your course'')]\<rparr>,
             \<lparr>err_id = ''schema-1767225600000-0.5'', field = ''course.author'',
              category = Schema, message = ''Course author is required'', level = Error,
              ctx = JObj [(''suggestion'', JStr ''Add the course author name'')]\<rparr>,
             \<lparr>err_id = ''business-1767225600000-0.5'', field = ''course.pages'',
              category = Business, message = ''At least one page is required'',
              level = Warning,
              ctx = JObj [(''suggestion'', JStr ''Add a page from templates'')]\<rparr>],
          timestamp = ''2026-01-01T00:00:00.000Z''\<rparr> \<and>
   validateCourse defaultValidators fixedClock fixedStamp oneOptionCourse =
     Inr \<lparr>valid = False,
          errors =
            [\<lparr>err_id = ''schema-1767225600000-0.5'', field = ''course.title'',
              category = Schema, message = ''Course title is required'', level = Error,
              ctx = JObj [(''suggestion'', JStr ''Add a descriptive title for your course'')]\<rparr>,
             \<lparr>err_id = ''schema-1767225600000-0.5'', field = ''course.author'',
              category = Schema, message = ''Course author is required'', level = Error,
              ctx = JObj [(''suggestion'', JStr ''Add the course author name'')]\<rparr>,
             \<lparr>err_id = ''business-1767225600000-0.5'', field = ''pages[0].content.question'',
              category = Business, message = ''MCQ page 1 must have a question'',
              level = Warning, ctx = JUndefined\<rparr>,
             \<lparr>err_id = ''business-1767225600000-0.5'', field = ''pages[0].content.options'',
              category = Business, message = ''MCQ page 1 must have at least 2 options'',
              level = Warning, ctx = JUndefined\<rparr>,
             \<lparr>err_id = ''business-1767225600000-0.5'',
              field = ''pages[0].content.correctAnswer'', category = Business,
              message = ''MCQ page 1 must have a correct answer'',
              level = Warning, ctx = JUndefined\<rparr>],
          timestamp = ''2026-01-01T00:00:00.000Z''\<rparr>"
  by (simp only: blocking_case_eval blocking_case_eval_mcq simp_thms)

text \<open>
  Claim C9, as the code has it. Whenever the full pass returns a result for a course: an
  empty title makes the result invalid with an error on \<open>course.title\<close> at final level
  error; an empty page list makes it invalid with the error on \<open>course.pages\<close> at final
  level warning; an MCQ page with fewer than two options makes it invalid with the error
  on its options at final level warning.
\<close>

theorem blocking_case_levels:
  assumes "validateCourse defaultValidators clock stamp course = Inr r"
  shows "(get course ''title'' = Inr (JStr []) \<longrightarrow>
            \<not> valid r \<and> (\<exists>e \<in> set (errors r). field e = ''course.title'' \<and> level e = Error)) \<and>
         (get course ''pages'' = Inr (JArr []) \<longrightarrow>
            \<not> valid r \<and> (\<exists>e \<in> set (errors r). field e = ''course.pages'' \<and> level e = Warning)) \<and>
         (\<forall>ps i c opts.
            get course ''pages'' = Inr (JArr ps) \<and> i < length ps \<and>
            normalizeTemplateType (ps ! i) = Inr (JStr ''mcq'') \<and>
            get (ps ! i) ''content'' = Inr c \<and> get c ''options'' = Inr (JArr opts) \<and>
            length opts < 2 \<longrightarrow>
            \<not> valid r \<and>
            (\<exists>e \<in> set (errors r).
               field e = pageField i ''.content.options'' \<and> level e = Warning))"
proof -
  from validateCourse_default [OF assms] obtain r1 r2 r3 where
    r1: "CourseValidator_validate (clock 0) course = Inr r1" and
    r2: "TemplateValidator_validate (clock (Suc 0)) course = Inr r2" and
    r3: "NavigationValidator_validate (clock (Suc (Suc 0))) course = Inr r3" and
    errs: "errors r = categorizeErrors stamp (errors r1 @ errors r2 @ errors r3)" and
    v: "valid r = (errors r1 @ errors r2 @ errors r3 = [])"
    by blast
  have final: "\<not> valid r \<and> (\<exists>e' \<in> set (errors r). field e' = field e \<and> level e' = determineLevel e)"
    if "e \<in> set (errors r1 @ errors r2 @ errors r3)" for e
    using categorizeErrors_mem [OF that, of stamp] that v errs by auto
  have title: "\<not> valid r \<and> (\<exists>e \<in> set (errors r). field e = ''course.title'' \<and> level e = Error)"
    if "get course ''title'' = Inr (JStr [])"
    using final [of "createError ''course.title'' Schema ''Course title is required''
           (JObj [(''suggestion'', JStr ''Add a descriptive title for your course'')])"]
      CourseValidator_title [OF r1 that]
    by (simp add: createError_def determineLevel_def)
  have pages: "\<not> valid r \<and> (\<exists>e \<in> set (errors r). field e = ''course.pages'' \<and> level e = Warning)"
    if "get course ''pages'' = Inr (JArr [])"
    using final [of "createError ''course.pages'' Business ''At least one page is required''
           (JObj [(''suggestion'', JStr ''Add a page from templates'')])"]
      CourseValidator_pages [OF r1 that]
    by (simp add: createError_def determineLevel_def js_includes_def sublist_code)
  have opts: "\<not> valid r \<and>
      (\<exists>e \<in> set (errors r). field e = pageField i ''.content.options'' \<and> level e = Warning)"
    if "get course ''pages'' = Inr (JArr ps)" "i < length ps"
      "normalizeTemplateType (ps ! i) = Inr (JStr ''mcq'')"
      "get (ps ! i) ''content'' = Inr c" "get c ''options'' = Inr (JArr opts)"
      "length opts < 2" for ps i c opts
  proof -
    have "\<not> js_includes (pageField i ''.content.options'') ''required''"
      by (rule no_q_not_required, rule pageField_no_q) simp
    then show ?thesis
      using final [of "mkError (pageField i ''.content.options'') Business
           (''MCQ page '' @ string_of_nat (i + 1) @ '' must have at least 2 options'') Error"]
        TemplateValidator_options [OF r2 that]
      by (simp add: mkError_def determineLevel_def)
  qed
  show ?thesis
    using title pages opts by blast
qed

theorem blocking_case_levels_witness:
  "(\<exists>r. validateCourse defaultValidators fixedClock fixedStamp noPagesCourse = Inr r \<and>
        get noPagesCourse ''title'' = Inr (JStr []) \<and>
        get noPagesCourse ''pages'' = Inr (JArr []) \<and>
        \<not> valid r \<and>
        (\<exists>e \<in> set (errors r). field e = ''course.title'' \<and> level e = Error) \<and>
        (\<exists>e \<in> set (errors r). field e = ''course.pages'' \<and> level e = Warning)) \<and>
   (\<exists>r. validateCourse defaultValidators fixedClock fixedStamp oneOptionCourse = Inr r \<and>
        \<not> valid r \<and>
        (\<exists>e \<in> set (errors r). field e = ''pages[0].content.options'' \<and> level e = Warning))"
proof
  have t: "get noPagesCourse ''title'' = Inr (JStr [])"
    and p: "get noPagesCourse ''pages'' = Inr (JArr [])"
    by (simp_all add: noPagesCourse_def)
  obtain r where
    r: "validateCourse defaultValidators fixedClock fixedStamp noPagesCourse = Inr r"
    using blocking_case_eval by simp
  from blocking_case_levels [OF r] t p
  have "\<not> valid r \<and>
       (\<exists>e \<in> set (errors r). field e = ''course.title'' \<and> level e = Error) \<and>
       (\<exists>e \<in> set (errors r). field e = ''course.pages'' \<and> level e = Warning)"
    by blast
  with r t p show "\<exists>r. validateCourse defaultValidators fixedClock fixedStamp noPagesCourse = Inr r \<and>
        get noPagesCourse ''title'' = Inr (JStr []) \<and>
        get noPagesCourse ''pages'' = Inr (JArr []) \<and>
        \<not> valid r \<and>
        (\<exists>e \<in> set (errors r). field e = ''course.title'' \<and> level e = Error) \<and>
        (\<exists>e \<in> set (errors r). field e = ''course.pages'' \<and> level e = Warning)"
    by blast
next
  let ?page = "JObj [(''id'', JStr ''p1''), (''templateType'', JStr ''mcq''),
                     (''title'', JStr ''Quiz''),
                     (''content'', JObj [(''options'', JArr [JStr ''A''])]),
                     (''order'', JNum 0),
                     (''lastModified'', JStr ''2026-01-01T00:00:00.000Z'')]"
  have h: "get oneOptionCourse ''pages'' = Inr (JArr [?page])"
    "(0::nat) < length [?page]"
    "normalizeTemplateType ([?page] ! 0) = Inr (JStr ''mcq'')"
    "get ([?page] ! 0) ''content'' = Inr (JObj [(''options'', JArr [JStr ''A''])])"
    "get (JObj [(''options'', JArr [JStr ''A''])]) ''options'' = Inr (JArr [JStr ''A''])"
    "length [JStr ''A''] < 2"
    by (simp_all add: oneOptionCourse_def normalizeTemplateType_def)
  obtain r where
    r: "validateCourse defaultValidators fixedClock fixedStamp oneOptionCourse = Inr r"
    using blocking_case_eval_mcq by simp
  from blocking_case_levels [OF r] h
  have "\<not> valid r \<and>
       (\<exists>e \<in> set (errors r). field e = pageField 0 ''.content.options'' \<and> level e = Warning)"
    by blast
  then have "\<not> valid r \<and>
       (\<exists>e \<in> set (errors r). field e = ''pages[0].content.options'' \<and> level e = Warning)"
    by (simp add: pageField_def)
  with r show "\<exists>r. validateCourse defaultValidators fixedClock fixedStamp oneOptionCourse = Inr r \<and>
        \<not> valid r \<and>
        (\<exists>e \<in> set (errors r). field e = ''pages[0].content.options'' \<and> level e = Warning)"
    by blast
qed

subsection \<open>Order of the transformed templates\<close>

lemma compareOrder_Inr:
  assumes "compareOrder a b = Inr c"
  shows "c = orderKey a - orderKey b"
  using assms by (auto simp: compareOrder_def orderKey_def bind_eq_Inr)

lemma insertSorted_props:
  assumes "insertSorted compareOrder x ys = Inr r" and "sorted (map orderKey ys)"
  shows "mset r = add_mset x (mset ys) \<and> sorted (map orderKey r) \<and>
         (\<forall>k. filter (\<lambda>t. orderKey t = k) r =
               filter (\<lambda>t. orderKey t = k) ys @ (if orderKey x = k then [x] else []))"
  using assms
proof (induction ys arbitrary: r)
  case Nil
  then show ?case by auto
next
  case (Cons y ys)
  from Cons.prems(1) obtain c where c: "compareOrder y x = Inr c"
    by (auto simp: bind_eq_Inr)
  then have ck: "c = orderKey y - orderKey x" by (rule compareOrder_Inr)
  show ?case
  proof (cases "c \<le> 0")
    case True
    with Cons.prems(1) c obtain r' where
      r': "insertSorted compareOrder x ys = Inr r'" and r: "r = y # r'"
      by (auto simp: bind_eq_Inr)
    from Cons.prems(2) have s: "sorted (map orderKey ys)" by simp
    note ih = Cons.IH [OF r' s]
    have "set r' = insert x (set ys)"
      using ih by (metis set_mset_add_mset_insert set_mset_mset)
    then have "\<forall>z \<in> set r'. orderKey y \<le> orderKey z"
      using Cons.prems(2) True ck by auto
    then show ?thesis
      using ih r by auto
  next
    case False
    with Cons.prems(1) c have r: "r = x # y # ys" by simp
    have lt: "orderKey x < orderKey y" using False ck by simp
    then have all: "\<forall>z \<in> set (y # ys). orderKey x < orderKey z"
      using Cons.prems(2) by auto
    then have "filter (\<lambda>t. orderKey t = orderKey x) (y # ys) = []"
      by (auto simp: filter_empty_conv)
    then show ?thesis
      using r all Cons.prems(2) by (auto simp: less_imp_le)
  qed
qed

lemma sortInto_props:
  assumes "sortInto compareOrder acc xs = Inr r" and "sorted (map orderKey acc)"
  shows "mset r = mset acc + mset xs \<and> sorted (map orderKey r) \<and>
         (\<forall>k. filter (\<lambda>t. orderKey t = k) r =
               filter (\<lambda>t. orderKey t = k) acc @ filter (\<lambda>t. orderKey t = k) xs)"
  using assms
proof (induction xs arbitrary: acc r)
  case Nil
  then show ?case by simp
next
  case (Cons x xs)
  from Cons.prems(1) obtain acc' where
    a: "insertSorted compareOrder x acc = Inr acc'" and
    s: "sortInto compareOrder acc' xs = Inr r"
    by (auto simp: bind_eq_Inr)
  note p = insertSorted_props [OF a Cons.prems(2)]
  from p have "sorted (map orderKey acc')" by simp
  note ih = Cons.IH [OF s this]
  show ?case using ih p by auto
qed

lemma js_sort_props:
  assumes "js_sort compareOrder xs = Inr r"
  shows "mset r = mset xs \<and> sorted (map orderKey r) \<and>
         (\<forall>k. filter (\<lambda>t. orderKey t = k) r = filter (\<lambda>t. orderKey t = k) xs)"
  using sortInto_props [of "[]" xs r] assms by (simp add: js_sort_def)

lemma mapIdx_nth:
  assumes "mapIdx f xs k = Inr ys"
  shows "length ys = length xs \<and> (\<forall>i < length xs. f (xs ! i) (k + i) = Inr (ys ! i))"
  using assms
proof (induction xs arbitrary: k ys)
  case Nil
  then show ?case by simp
next
  case (Cons x xs)
  from Cons.prems obtain y ys' where
    y: "f x k = Inr y" and ys': "mapIdx f xs (Suc k) = Inr ys'" and ys: "ys = y # ys'"
    by (auto simp: bind_eq_Inr)
  note ih = Cons.IH [OF ys']
  show ?case
  proof (intro conjI allI impI)
    show "length ys = length (x # xs)" using ih ys by simp
  next
    fix i assume "i < length (x # xs)"
    then show "f ((x # xs) ! i) (k + i) = Inr (ys ! i)"
      using ih y ys by (cases i) auto
  qed
qed

lemma transformTemplate_order:
  assumes "transformTemplate t i = Inr y"
  shows "get y ''order'' = Inr (JNum (int i))"
  using assms
  by (auto simp: transformTemplate_def bind_eq_Inr Let_def update_conv')

lemma setProp_Inr: "setProp c k v = Inr c' \<Longrightarrow> \<exists>kvs. c = JObj kvs \<and> c' = JObj (AList.update k v kvs)"
  by (cases c) simp_all

lemma backend_clone_object:
  assumes "transformCourseForBackend course = Inr r"
  shows "\<exists>kvs. jsonClone course = JObj kvs"
proof -
  from assms obtain c0 c1 cloned where
    "deepClone course = Inr c0" and
    c1: "(if \<not> truthy (getq c0 ''language'') then setProp c0 ''language'' (JStr ''en'') else Inr c0) = Inr c1"
    and cl: "setProp c1 ''settings'' (js_or (getq c1 ''settings'') defaultSettings) = Inr cloned"
    by (auto simp: transformCourseForBackend_def bind_eq_Inr getq_def)
  then have c0: "c0 = jsonClone course" by (auto simp: deepClone_def split: if_splits)
  from cl obtain kvs1 where k1: "c1 = JObj kvs1" by (auto dest: setProp_Inr)
  from c1 k1 have "\<exists>kvs. c0 = JObj kvs"
    by (auto split: if_splits dest: setProp_Inr)
  then show ?thesis using c0 by simp
qed

lemma getq_JObj [simp]: "getq (JObj kvs) k = (case map_of kvs k of None \<Rightarrow> JUndefined | Some v \<Rightarrow> v)"
  by (simp add: getq_def)

lemma sourceTemplatesOf_update:
  assumes "k \<noteq> ''templates''" and "k \<noteq> ''pages''"
  shows "sourceTemplatesOf (JObj (AList.update k v kvs)) = sourceTemplatesOf (JObj kvs)"
  using assms by (simp add: sourceTemplatesOf_def update_conv')

lemma backend_templates:
  assumes "transformCourseForBackend course = Inr r"
  shows "\<exists>src s ts.
           spreadArray (sourceTemplatesOf (jsonClone course)) = Inr src \<and>
           js_sort compareOrder src = Inr s \<and>
           mapIdx transformTemplate s 0 = Inr ts \<and>
           get r ''templates'' = Inr (JArr ts)"
proof -
  from backend_clone_object [OF assms] obtain kvs where kvs: "jsonClone course = JObj kvs"
    by blast
  have u: "course \<noteq> JUndefined" using kvs by auto
  show ?thesis
    using assms
    by (auto simp: transformCourseForBackend_def deepClone_def u kvs bind_eq_Inr Let_def
        sourceTemplatesOf_update split: if_splits)
qed

text \<open>
  Claim C5. Whenever \<open>transformCourseForBackend\<close> returns, its templates are the source
  templates (of \<open>templates\<close>, else \<open>pages\<close>) rearranged: the same elements, ascending by
  their original order value, elements of equal order value in their original relative
  order; the template at position \<open>i\<close> is the transform of the \<open>i\<close>-th of them and carries
  the order \<open>i\<close>, whatever order it had.
\<close>

theorem backend_order_resequenced:
  assumes "transformCourseForBackend course = Inr r"
  shows "\<exists>src sorted ts.
           spreadArray (sourceTemplatesOf (jsonClone course)) = Inr src \<and>
           get r ''templates'' = Inr (JArr ts) \<and>
           mset sorted = mset src \<and>
           sorted_wrt (\<lambda>a b. orderKey a \<le> orderKey b) sorted \<and>
           (\<forall>k. filter (\<lambda>t. orderKey t = k) sorted = filter (\<lambda>t. orderKey t = k) src) \<and>
           length ts = length src \<and>
           (\<forall>i < length ts.
              transformTemplate (sorted ! i) i = Inr (ts ! i) \<and>
              get (ts ! i) ''order'' = Inr (JNum (int i)))"
proof -
  from backend_templates [OF assms] obtain src s ts where
    src: "spreadArray (sourceTemplatesOf (jsonClone course)) = Inr src" and
    s: "js_sort compareOrder src = Inr s" and
    ts: "mapIdx transformTemplate s 0 = Inr ts" and
    r: "get r ''templates'' = Inr (JArr ts)"
    by blast
  note sp = js_sort_props [OF s]
  note mp = mapIdx_nth [OF ts]
  have len: "length s = length src"
    using sp by (metis size_mset)
  have "sorted_wrt (\<lambda>a b. orderKey a \<le> orderKey b) s"
    using sp by (simp add: sorted_map)
  moreover have "\<forall>i < length ts.
              transformTemplate (s ! i) i = Inr (ts ! i) \<and>
              get (ts ! i) ''order'' = Inr (JNum (int i))"
    using mp transformTemplate_order by auto
  ultimately show ?thesis
    using src r sp mp len by auto
qed

lemmas transform_defs =
  transformCourseForBackend_def deepClone_def sourceTemplatesOf_def js_sort_def
  compareOrder_def orderOf_def nullish_def js_or_def transformTemplate_def
  bridgeQuestions_def defaultSettings_def matchesAnswer_def optionText_def optionsArray_def
  formatOption_def trim_def isWhiteSpace_def Let_def

lemma course552_eval:
  "\<exists>r ts. transformCourseForBackend course552 = Inr r \<and>
     get r ''templates'' = Inr (JArr ts) \<and>
     map (\<lambda>t. (getq t ''id'', getq t ''order'')) ts =
       [(JStr ''c'', JNum 0), (JStr ''a'', JNum 1), (JStr ''b'', JNum 2)]"
  by (simp add: course552_def transform_defs)

theorem backend_order_resequenced_witness:
  "\<exists>r src sorted ts.
     transformCourseForBackend course552 = Inr r \<and>
     spreadArray (sourceTemplatesOf (jsonClone course552)) = Inr src \<and>
     map (\<lambda>t. (getq t ''id'', getq t ''order'')) src =
       [(JStr ''a'', JNum 5), (JStr ''b'', JNum 5), (JStr ''c'', JNum 2)] \<and>
     get r ''templates'' = Inr (JArr ts) \<and>
     map (\<lambda>t. (getq t ''id'', getq t ''order'')) ts =
       [(JStr ''c'', JNum 0), (JStr ''a'', JNum 1), (JStr ''b'', JNum 2)] \<and>
     mset sorted = mset src \<and>
     sorted_wrt (\<lambda>a b. orderKey a \<le> orderKey b) sorted \<and>
     (\<forall>k. filter (\<lambda>t. orderKey t = k) sorted = filter (\<lambda>t. orderKey t = k) src) \<and>
     (\<forall>i < length ts. transformTemplate (sorted ! i) i = Inr (ts ! i))"
proof -
  from course552_eval obtain r ts where
    r: "transformCourseForBackend course552 = Inr r" and
    ts: "get r ''templates'' = Inr (JArr ts)" and
    ids: "map (\<lambda>t. (getq t ''id'', getq t ''order'')) ts =
       [(JStr ''c'', JNum 0), (JStr ''a'', JNum 1), (JStr ''b'', JNum 2)]"
    by auto
  from backend_order_resequenced [OF r] obtain src sorted ts' where
    src: "spreadArray (sourceTemplatesOf (jsonClone course552)) = Inr src" and
    ts': "get r ''templates'' = Inr (JArr ts')" and
    p: "mset sorted = mset src"
       "sorted_wrt (\<lambda>a b. orderKey a \<le> orderKey b) sorted"
       "\<forall>k. filter (\<lambda>t. orderKey t = k) sorted = filter (\<lambda>t. orderKey t = k) src"
       "\<forall>i < length ts'. transformTemplate (sorted ! i) i = Inr (ts' ! i)"
    by auto
  have eq: "ts' = ts" using ts ts' by simp
  have "map (\<lambda>t. (getq t ''id'', getq t ''order'')) src =
       [(JStr ''a'', JNum 5), (JStr ''b'', JNum 5), (JStr ''c'', JNum 2)]"
    using src by (auto simp: course552_def sourceTemplatesOf_def js_or_def)
  then show ?thesis
    using r src ts ids p eq by auto
qed

subsection \<open>Legacy MCQ bridging\<close>

lemma string_of_nat_small: "n < 10 \<Longrightarrow> string_of_nat n = [digit_char n]"
  by (simp add: string_of_nat.simps)

lemma truthy_readable: "truthy v \<Longrightarrow> readable v"
  by (cases v) (simp_all add: readable_def)

lemma matchesAnswer_strings:
  "ca \<noteq> [] \<Longrightarrow> matchesAnswer (JStr ca) (JStr opt) = Inr (trim opt = trim ca)"
  by (simp add: matchesAnswer_def optionText_def js_or_def)

lemma findIndex_strings:
  assumes "ca \<noteq> []"
  shows "findIndex (matchesAnswer (JStr ca)) (map JStr opts) k =
           Inr (if trim ca \<in> set (map trim opts)
                then int (k + length (takeWhile (\<lambda>opt. trim opt \<noteq> trim ca) opts))
                else - 1)"
  using assms
  by (induction opts arbitrary: k) (auto simp: matchesAnswer_strings)

lemma findIndex_firstMatch:
  "ca \<noteq> [] \<Longrightarrow>
   findIndex (matchesAnswer (JStr ca)) (map JStr opts) 0 = Inr (firstMatch ca opts)"
  by (simp add: findIndex_strings firstMatch_def)

lemma first_match_index:
  assumes "i < length opts"
  shows "(trim ca \<in> set (map trim opts) \<and>
            i = length (takeWhile (\<lambda>opt. trim opt \<noteq> trim ca) opts)) \<longleftrightarrow>
         (trim (opts ! i) = trim ca \<and> trim ca \<notin> set (map trim (take i opts)))"
  using assms
proof (induction opts arbitrary: i)
  case Nil
  then show ?case by simp
next
  case (Cons x xs)
  show ?case
  proof (cases i)
    case 0
    then show ?thesis by auto
  next
    case (Suc j)
    then have "j < length xs" using Cons.prems by simp
    from Cons.IH [OF this] show ?thesis
      using Suc by (cases "trim x = trim ca") auto
  qed
qed

lemma firstMatch_iff:
  assumes "i < length opts"
  shows "int i = firstMatch ca opts \<longleftrightarrow>
         trim (opts ! i) = trim ca \<and> trim ca \<notin> set (map trim (take i opts))"
proof -
  have "int i = firstMatch ca opts \<longleftrightarrow>
        (trim ca \<in> set (map trim opts) \<and>
            i = length (takeWhile (\<lambda>opt. trim opt \<noteq> trim ca) opts))"
    by (auto simp: firstMatch_def)
  then show ?thesis
    using first_match_index [OF assms, of ca] by simp
qed

lemma mapIdx_formatOption_strings:
  "mapIdx (formatOption c) (map JStr opts) k =
     Inr (map (\<lambda>(i, opt).
            JObj [(''id'', JStr (''opt_'' @ string_of_nat (i + 1))),
                  (''text'', JStr opt),
                  (''isCorrect'', JBool (int i = c))]) (enumerate k opts))"
  by (induction opts arbitrary: k) (simp_all add: formatOption_def)

lemma enumerate_map_cong:
  assumes "\<And>i. i < length xs \<Longrightarrow> f i (xs ! i) = g i (xs ! i)"
  shows "map (\<lambda>(i, x). f i x) (enumerate 0 xs) = map (\<lambda>(i, x). g i x) (enumerate 0 xs)"
proof (rule map_cong [OF refl])
  fix p assume p: "p \<in> set (enumerate 0 xs)"
  obtain i x where ix: "p = (i, x)" by (cases p)
  from p have "i < length xs" "x = xs ! i"
    unfolding ix by (simp_all add: in_set_enumerate_eq)
  then show "(case p of (i, x) \<Rightarrow> f i x) = (case p of (i, x) \<Rightarrow> g i x)"
    using assms [of i] by (simp add: ix)
qed

lemma mapIdx_formatOption_firstMatch:
  "mapIdx (formatOption (firstMatch ca opts)) (map JStr opts) 0 =
     Inr (map (\<lambda>(i, opt).
            JObj [(''id'', JStr (''opt_'' @ string_of_nat (i + 1))),
                  (''text'', JStr opt),
                  (''isCorrect'',
                     JBool (trim opt = trim ca \<and>
                            trim ca \<notin> set (map trim (take i opts))))]) (enumerate 0 opts))"
  unfolding mapIdx_formatOption_strings
  by (rule arg_cong [where f = Inr], rule enumerate_map_cong) (simp add: firstMatch_iff)

lemma mapIdx_formatOption_none:
  "mapIdx (formatOption (- 1)) (map JStr opts) 0 =
     Inr (map (\<lambda>(i, opt).
            JObj [(''id'', JStr (''opt_'' @ string_of_nat (i + 1))),
                  (''text'', JStr opt),
                  (''isCorrect'', JBool False)]) (enumerate 0 opts))"
  unfolding mapIdx_formatOption_strings
  by (rule arg_cong [where f = Inr], rule enumerate_map_cong) simp

lemma bridgeQuestions_legacy:
  assumes "readable t" and "readable sd"
    and "\<not> truthy (getq sd ''questions'')"
    and "getq sd ''question'' = JStr q" and "q \<noteq> []"
    and "getq sd ''options'' = JArr (map JStr opts)"
    and "getq sd ''correctAnswer'' = JStr ca"
  shows "bridgeQuestions t sd =
           Inr (JArr [JObj [(''id'', JStr (js_toString (getq t ''id'') @ ''_q1'')),
                            (''question'', JStr q),
                            (''options'',
                               JArr (map (\<lambda>(i, opt).
                                  JObj [(''id'', JStr (''opt_'' @ string_of_nat (i + 1))),
                                        (''text'', JStr opt),
                                        (''isCorrect'',
                                           JBool (ca \<noteq> [] \<and> trim opt = trim ca \<and>
                                                  trim ca \<notin> set (map trim (take i opts))))])
                                 (enumerate 0 opts)))]])"
proof (cases "ca = []")
  case True
  then show ?thesis
    using assms
    by (simp add: bridgeQuestions_def get_readable optionsArray_def
        mapIdx_formatOption_none)
next
  case False
  then show ?thesis
    using assms
    by (simp add: bridgeQuestions_def get_readable optionsArray_def
        findIndex_firstMatch mapIdx_formatOption_firstMatch)
qed

text \<open>
  Claim C6, as the code has it. For a legacy MCQ page whose data has a non-empty question
  string, an array of option strings, a correctAnswer string and no questions yet, the
  transform returns one question with one option object per option string; an option is
  flagged correct exactly when correctAnswer is non-empty, the trimmed option text equals
  the trimmed correctAnswer, and no earlier option does. So at most one option is flagged,
  and none when nothing matches.
\<close>

theorem legacy_mcq_bridging:
  assumes "readable t"
    and "js_or (getq t ''data'') (js_or (getq t ''content'') (JObj [])) = sd"
    and "\<not> truthy (getq sd ''questions'')"
    and "getq sd ''question'' = JStr q" and "q \<noteq> []"
    and "getq sd ''options'' = JArr (map JStr opts)"
    and "getq sd ''correctAnswer'' = JStr ca"
  shows "\<exists>r. transformTemplate t idx = Inr r \<and>
           getq (getq r ''data'') ''questions'' =
             JArr [JObj [(''id'', JStr (js_toString (getq t ''id'') @ ''_q1'')),
                         (''question'', JStr q),
                         (''options'',
                            JArr (map (\<lambda>(i, opt).
                               JObj [(''id'', JStr (''opt_'' @ string_of_nat (i + 1))),
                                     (''text'', JStr opt),
                                     (''isCorrect'',
                                        JBool (ca \<noteq> [] \<and> trim opt = trim ca \<and>
                                               trim ca \<notin> set (map trim (take i opts))))])
                              (enumerate 0 opts)))]]"
proof -
  have "truthy sd"
    using assms(2) by (auto simp: js_or_def split: if_splits)
  then have rsd: "readable sd" by (rule truthy_readable)
  note b = bridgeQuestions_legacy [OF assms(1) rsd assms(3-7)]
  show ?thesis
    using assms(2)
    by (simp add: transformTemplate_def get_readable [OF assms(1)] get_readable [OF rsd] b
        Let_def update_conv' js_or_def)
qed

theorem legacy_mcq_bridging_witness:
  "(\<exists>r. transformTemplate legacyPage 0 = Inr r \<and>
        getq (getq r ''data'') ''questions'' =
          JArr [JObj [(''id'', JStr ''p1_q1''),
                      (''question'', JStr ''Q''),
                      (''options'',
                         JArr [JObj [(''id'', JStr ''opt_1''), (''text'', JStr ''A''),
                                     (''isCorrect'', JBool False)],
                               JObj [(''id'', JStr ''opt_2''), (''text'', JStr ''B''),
                                     (''isCorrect'', JBool True)],
                               JObj [(''id'', JStr ''opt_3''), (''text'', JStr ''C''),
                                     (''isCorrect'', JBool False)]])]]) \<and>
   (\<exists>r. transformTemplate
          (JObj [(''id'', JStr ''p2''),
                 (''content'', JObj [(''question'', JStr ''Q''),
                                     (''options'', JArr [JStr ''A'', JStr ''B'']),
                                     (''correctAnswer'', JStr ''D'')])]) 0 = Inr r \<and>
        getq (getq r ''data'') ''questions'' =
          JArr [JObj [(''id'', JStr ''p2_q1''),
                      (''question'', JStr ''Q''),
                      (''options'',
                         JArr [JObj [(''id'', JStr ''opt_1''), (''text'', JStr ''A''),
                                     (''isCorrect'', JBool False)],
                               JObj [(''id'', JStr ''opt_2''), (''text'', JStr ''B''),
                                     (''isCorrect'', JBool False)]])]])"
proof
  show "\<exists>r. transformTemplate legacyPage 0 = Inr r \<and>
        getq (getq r ''data'') ''questions'' =
          JArr [JObj [(''id'', JStr ''p1_q1''),
                      (''question'', JStr ''Q''),
                      (''options'',
                         JArr [JObj [(''id'', JStr ''opt_1''), (''text'', JStr ''A''),
                                     (''isCorrect'', JBool False)],
                               JObj [(''id'', JStr ''opt_2''), (''text'', JStr ''B''),
                                     (''isCorrect'', JBool True)],
                               JObj [(''id'', JStr ''opt_3''), (''text'', JStr ''C''),
                                     (''isCorrect'', JBool False)]])]]"
    using legacy_mcq_bridging
      [of legacyPage
          "JObj [(''question'', JStr ''Q''),
                 (''options'', JArr [JStr ''A'', JStr ''B'', JStr ''C'']),
                 (''correctAnswer'', JStr ''B'')]"
          "''Q''" "[''A'', ''B'', ''C'']" "''B''" 0]
    by (simp add: legacyPage_def readable_def js_or_def trim_def isWhiteSpace_def
        enumerate_eq_zip upt_rec string_of_nat_small digit_char_def)
next
  show "\<exists>r. transformTemplate
          (JObj [(''id'', JStr ''p2''),
                 (''content'', JObj [(''question'', JStr ''Q''),
                                     (''options'', JArr [JStr ''A'', JStr ''B'']),
                                     (''correctAnswer'', JStr ''D'')])]) 0 = Inr r \<and>
        getq (getq r ''data'') ''questions'' =
          JArr [JObj [(''id'', JStr ''p2_q1''),
                      (''question'', JStr ''Q''),
                      (''options'',
                         JArr [JObj [(''id'', JStr ''opt_1''), (''text'', JStr ''A''),
                                     (''isCorrect'', JBool False)],
                               JObj [(''id'', JStr ''opt_2''), (''text'', JStr ''B''),
                                     (''isCorrect'', JBool False)]])]]"
    using legacy_mcq_bridging
      [of "JObj [(''id'', JStr ''p2''),
                 (''content'', JObj [(''question'', JStr ''Q''),
                                     (''options'', JArr [JStr ''A'', JStr ''B'']),
                                     (''correctAnswer'', JStr ''D'')])]"
          "JObj [(''question'', JStr ''Q''),
                 (''options'', JArr [JStr ''A'', JStr ''B'']),
                 (''correctAnswer'', JStr ''D'')]"
          "''Q''" "[''A'', ''B'']" "''D''" 0]
    by (simp add: readable_def js_or_def trim_def isWhiteSpace_def enumerate_eq_zip upt_rec
        string_of_nat_small digit_char_def)
qed

text \<open>
  Claim C6 as stated sets each flag by the text match of that option. With the option text
  B twice and the answer B, only the first option is flagged, although the second matches
  exactly.
\<close>

theorem legacy_mcq_duplicates_counterexample:
  "transformTemplate duplicateOptionsPage 0 =
     Inr (JObj [(''id'', JStr ''p1''), (''type'', JStr ''mcq''), (''order'', JNum 0),
                (''data'',
                   JObj [(''content'', JStr []),
                         (''subtitle'', JUndefined),
                         (''videoUrl'', JUndefined),
                         (''questions'',
                            JArr [JObj [(''id'', JStr ''p1_q1''),
                                        (''question'', JStr ''Q''),
                                        (''options'',
                                           JArr [JObj [(''id'', JStr ''opt_1''),
                                                       (''text'', JStr ''B''),
                                                       (''isCorrect'', JBool True)],
                                                 JObj [(''id'', JStr ''opt_2''),
                                                       (''text'', JStr ''B''),
                                                       (''isCorrect'', JBool False)]])]])])])"
  by (simp add: duplicateOptionsPage_def transform_defs string_of_nat_small digit_char_def)

subsection \<open>Export placeholder\<close>





subsection \<open>JSON data\<close>

lemma clean_jsonClone: "v \<noteq> JUndefined \<Longrightarrow> clean (jsonClone v)"
proof (induction v)
  case (JArr xs)
  then show ?case by (auto simp: list_all_iff)
next
  case (JObj kvs)
  then show ?case by (fastforce simp: list_all_iff)
qed simp_all

lemma jsonClone_clean: "clean v \<Longrightarrow> jsonClone v = v"
proof (induction v)
  case (JArr xs)
  then have "map (\<lambda>x. if x = JUndefined then JNull else jsonClone x) xs = map (\<lambda>x. x) xs"
    by (intro map_cong) (auto simp: list_all_iff)
  then show ?case by simp
next
  case (JObj kvs)
  then have f: "filter (\<lambda>kv. snd kv \<noteq> JUndefined) kvs = kvs"
    by (auto simp: list_all_iff filter_id_conv)
  have "map (\<lambda>kv. (fst kv, jsonClone (snd kv))) kvs = map (\<lambda>kv. kv) kvs"
    using JObj by (intro map_cong) (auto simp: list_all_iff)
  then show ?case using f by simp
qed simp_all

lemma jsonClone_idem [simp]: "jsonClone (jsonClone v) = jsonClone v"
  by (cases "v = JUndefined") (simp_all add: jsonClone_clean clean_jsonClone)

lemma jsonClone_eq_undefined [simp]: "jsonClone v = JUndefined \<longleftrightarrow> v = JUndefined"
  by (cases v) simp_all

lemma wf_jsonClone: "wf_json v \<Longrightarrow> wf_json (jsonClone v)"
proof (induction v)
  case (JArr xs)
  then show ?case by (auto simp: list_all_iff)
next
  case (JObj kvs)
  have d: "distinct (map fst (filter (\<lambda>kv. snd kv \<noteq> JUndefined) kvs))"
    using JObj.prems by (simp add: distinct_map_filter)
  have ih: "wf_json (jsonClone v)" if "(k, v) \<in> set kvs" for k v
    using JObj.IH [of "(k, v)" v] that JObj.prems by (auto simp: list_all_iff)
  show ?case
    using d ih by (auto simp: list_all_iff comp_def)
qed simp_all

subsection \<open>Reading JSON data\<close>

lemma cu_jsonClone [simp]: "cu v \<Longrightarrow> jsonClone v = v"
  by (auto simp: cu_def jsonClone_clean)

lemma clean_cu: "clean v \<Longrightarrow> cu v"
  by (simp add: cu_def)

lemma cu_simps [simp]:
  "cu JUndefined" "cu JNull" "cu (JBool b)" "cu (JNum n)" "cu (JStr s)"
  by (simp_all add: cu_def)

lemma cu_getq: "clean v \<Longrightarrow> cu (getq v k)"
proof (cases v)
  case (JObj kvs)
  assume c: "clean v"
  show ?thesis
  proof (cases "map_of kvs k")
    case None
    then show ?thesis using JObj by (simp add: cu_def)
  next
    case (Some x)
    then have "(k, x) \<in> set kvs" by (rule map_of_SomeD)
    then have "clean x" using c JObj by (auto simp: list_all_iff)
    then show ?thesis using JObj Some by (simp add: cu_def)
  qed
qed (simp_all add: getq_def cu_def)

lemma wf_getq: "wf_json v \<Longrightarrow> wf_json (getq v k)"
proof (cases v)
  case (JObj kvs)
  assume c: "wf_json v"
  show ?thesis
  proof (cases "map_of kvs k")
    case None
    then show ?thesis using JObj by simp
  next
    case (Some x)
    then have "(k, x) \<in> set kvs" by (rule map_of_SomeD)
    then have "wf_json x" using c JObj by (auto simp: list_all_iff)
    then show ?thesis using JObj Some by simp
  qed
qed (simp_all add: getq_def)

lemma cu_js_or: "cu a \<Longrightarrow> cu b \<Longrightarrow> cu (js_or a b)"
  by (simp add: js_or_def)

lemma cu_nullish: "cu a \<Longrightarrow> cu b \<Longrightarrow> cu (nullish a b)"
  by (simp add: nullish_def)

lemma wf_js_or: "wf_json a \<Longrightarrow> wf_json b \<Longrightarrow> wf_json (js_or a b)"
  by (simp add: js_or_def)

lemma truthy_cu_clean: "truthy v \<Longrightarrow> cu v \<Longrightarrow> clean v"
  by (auto simp: cu_def)

lemma truthy_jsonClone [simp]: "truthy (jsonClone v) = truthy v"
  by (cases v) simp_all

lemma typeof_jsonClone [simp]: "typeof (jsonClone v) = typeof v"
  by (cases v) simp_all

text \<open>Reading a property of the clone of an object.\<close>

lemma map_of_clone:
  assumes "distinct (map fst kvs)"
  shows "map_of (map (\<lambda>kv. (fst kv, jsonClone (snd kv)))
                 (filter (\<lambda>kv. snd kv \<noteq> JUndefined) kvs)) k =
           (case map_of kvs k of
              None \<Rightarrow> None
            | Some v \<Rightarrow> if v = JUndefined then None else Some (jsonClone v))"
  using assms
proof (induction kvs)
  case Nil
  then show ?case by simp
next
  case (Cons kv kvs)
  obtain k' v' where kv: "kv = (k', v')" by (cases kv)
  from Cons.prems kv have nk: "k' \<notin> fst ` set kvs" and d: "distinct (map fst kvs)" by auto
  from nk have none: "map_of kvs k' = None"
    by (simp add: map_of_eq_None_iff)
  show ?case
    using Cons.IH [OF d] kv none by (auto split: option.splits)
qed

lemma getq_jsonClone:
  assumes "distinct (map fst kvs)"
  shows "getq (jsonClone (JObj kvs)) k = jsonClone (getq (JObj kvs) k)"
  by (simp add: map_of_clone [OF assms] split: option.splits)

subsection \<open>Updates under the clone\<close>

lemma cloneEntries_update:
  assumes "v \<noteq> JUndefined" and "map_of X k \<noteq> Some JUndefined"
  shows "cloneEntries (AList.update k v X) = AList.update k (jsonClone v) (cloneEntries X)"
  using assms
proof (induction X)
  case Nil
  then show ?case by simp
next
  case (Cons kv X)
  obtain k' v' where kv: "kv = (k', v')" by (cases kv)
  show ?case
  proof (cases "k' = k")
    case True
    then show ?thesis using Cons.prems kv by simp
  next
    case False
    then have "map_of X k \<noteq> Some JUndefined" using Cons.prems kv by simp
    from Cons.IH [OF Cons.prems(1) this] show ?thesis
      using False kv by simp
  qed
qed

lemma cloneEntries_update_undefined:
  assumes "k \<notin> fst ` set X"
  shows "cloneEntries (AList.update k JUndefined X) = cloneEntries X"
  using assms by (induction X) auto

lemma cloneEntries_idem: "cloneEntries (cloneEntries X) = cloneEntries X"
proof -
  have "jsonClone (jsonClone (JObj X)) = jsonClone (JObj X)" by (rule jsonClone_idem)
  then show ?thesis by simp
qed

subsection \<open>Keys of a spread\<close>

lemma string_of_nat_nonempty: "string_of_nat n \<noteq> []"
  by (subst string_of_nat.simps) simp

lemma digit_char_inj:
  assumes "a < 10" and "b < 10" and "digit_char a = digit_char b"
  shows "a = b"
proof -
  have "distinct ''0123456789''" by simp
  then show ?thesis
    using assms unfolding digit_char_def
    by (simp add: nth_eq_iff_index_eq)
qed

lemma string_of_nat_inj: "string_of_nat m = string_of_nat n \<Longrightarrow> m = n"
proof (induction m arbitrary: n rule: string_of_nat.induct)
  case (1 m)
  have big: "length (string_of_nat k) \<ge> 2" if "\<not> k < 10" for k
    using that string_of_nat_nonempty [of "k div 10"]
    by (subst string_of_nat.simps) (cases "string_of_nat (k div 10)", simp_all)
  have small: "length (string_of_nat k) = 1" if "k < 10" for k
    using that by (simp add: string_of_nat_small)
  show ?case
  proof (cases "m < 10")
    case True
    then have "n < 10" using big [of n] small [of m] "1.prems" by fastforce
    then show ?thesis
      using True "1.prems" by (simp add: string_of_nat_small digit_char_inj)
  next
    case False
    then have n: "\<not> n < 10" using big [of m] small [of n] "1.prems" by fastforce
    have "string_of_nat (m div 10) @ [digit_char (m mod 10)] =
          string_of_nat (n div 10) @ [digit_char (n mod 10)]"
      using "1.prems" False n
      by (metis string_of_nat.simps)
    then have a: "string_of_nat (m div 10) = string_of_nat (n div 10)"
      and b: "digit_char (m mod 10) = digit_char (n mod 10)"
      by simp_all
    from "1.IH" [OF False a] have d: "m div 10 = n div 10" .
    from b have "m mod 10 = n mod 10"
      by (intro digit_char_inj) simp_all
    with d show ?thesis
      by (metis div_mult_mod_eq)
  qed
qed

lemma index_keys:
  "map fst (map (\<lambda>(i, x). (string_of_nat i, g x)) (enumerate k xs)) =
     map string_of_nat [k..<k + length xs]"
proof -
  have "map fst (map (\<lambda>(i, x). (string_of_nat i, g x)) (enumerate k xs)) =
        map string_of_nat (map fst (enumerate k xs))"
    by (induction xs arbitrary: k) simp_all
  then show ?thesis by simp
qed

lemma distinct_index_keys:
  "distinct (map fst (map (\<lambda>(i, x). (string_of_nat i, g x)) (enumerate k xs)))"
proof -
  have "inj_on string_of_nat (set [k..<k + length xs])"
    by (rule inj_onI) (rule string_of_nat_inj)
  then have "distinct (map string_of_nat [k..<k + length xs])"
    by (simp only: distinct_map distinct_upt simp_thms)
  then show ?thesis by (simp only: index_keys)
qed

lemma distinct_spreadObj: "wf_json t \<Longrightarrow> distinct (map fst (spreadObj t))"
proof (cases t)
  case (JArr xs)
  show ?thesis
    unfolding JArr spreadObj.simps
    using distinct_index_keys [of "\<lambda>x. x" 0 xs] by simp
next
  case (JStr s)
  show ?thesis
    unfolding JStr spreadObj.simps
    by (rule distinct_index_keys [of "\<lambda>c. JStr [c]" 0 s])
qed simp_all

lemma clean_spreadObj: "clean t \<Longrightarrow> list_all (\<lambda>kv. clean (snd kv)) (spreadObj t)"
proof (cases t)
  case (JArr xs)
  assume "clean t"
  then show ?thesis using JArr
    by (auto simp: list_all_iff in_set_enumerate_eq)
next
  case (JStr s)
  then show ?thesis by (auto simp: list_all_iff)
qed simp_all

subsection \<open>The transformed template\<close>

lemma readable_sourceDataOf: "readable (sourceDataOf t)"
  by (rule truthy_readable) (simp add: sourceDataOf_def js_or_def)

lemma transformTemplate_readable:
  assumes "transformTemplate t i = Inr t1"
  shows "readable t"
  using assms by (cases t) (simp_all add: transformTemplate_def readable_def)

lemma transformTemplate_Inr:
  assumes "transformTemplate t i = Inr t1"
  shows "\<exists>q. bridgeQuestions t (sourceDataOf t) = Inr q \<and>
           t1 = JObj
             (AList.update ''data''
                (JObj [(''content'', contentOf (sourceDataOf t)),
                       (''subtitle'', js_or (getq (sourceDataOf t) ''subtitle'') JUndefined),
                       (''videoUrl'', js_or (getq (sourceDataOf t) ''videoUrl'') JUndefined),
                       (''questions'', js_or q JUndefined)])
             (AList.update ''order'' (JNum (int i))
             (AList.update ''type'' (js_or (getq t ''type'') (getq t ''templateType''))
               (spreadObj t))))"
proof -
  note r = transformTemplate_readable [OF assms]
  have sd: "js_or (getq t ''data'') (js_or (getq t ''content'') (JObj [])) = sourceDataOf t"
    by (simp add: sourceDataOf_def)
  show ?thesis
    using assms
    by (auto simp: transformTemplate_def get_readable [OF r] Let_def sd
        get_readable [OF readable_sourceDataOf] bind_eq_Inr contentOf_def)
qed

lemma cu_or_undefined:
  assumes "cu x"
  shows "cu (js_or x JUndefined)"
    and "js_or x JUndefined = JUndefined \<or> truthy (js_or x JUndefined)"
  using assms by (simp_all add: js_or_def)

lemma formatOption_clean:
  assumes "clean opt" and "formatOption c opt i = Inr y"
  shows "clean y"
proof -
  have a: "clean (js_or (getq opt ''id'') (JStr s))" for s
    using cu_getq [OF assms(1), of "''id''"] by (auto simp: js_or_def cu_def)
  have b: "clean (js_or (js_or (getq opt ''text'') (getq opt ''option'')) (JStr s))" for s
    using cu_getq [OF assms(1), of "''text''"] cu_getq [OF assms(1), of "''option''"]
    by (auto simp: js_or_def cu_def)
  show ?thesis
    using assms a b by (auto simp: formatOption_def split: if_splits)
qed

lemma mapIdx_clean:
  assumes "\<And>x i y. clean x \<Longrightarrow> f x i = Inr y \<Longrightarrow> clean y"
    and "list_all clean xs" and "mapIdx f xs k = Inr ys"
  shows "list_all clean ys"
  using assms(2,3)
proof (induction xs arbitrary: k ys)
  case Nil
  then show ?case by simp
next
  case (Cons x xs)
  from Cons.prems(2) obtain y ys' where
    y: "f x k = Inr y" and ys': "mapIdx f xs (Suc k) = Inr ys'" and ys: "ys = y # ys'"
    by (auto simp: bind_eq_Inr)
  have "clean y" using assms(1) [OF _ y] Cons.prems(1) by simp
  moreover have "list_all clean ys'" using Cons.IH [OF _ ys'] Cons.prems(1) by simp
  ultimately show ?case using ys by simp
qed

lemma clean_optionsArray: "cu options \<Longrightarrow> list_all clean (optionsArray options)"
  by (cases options) (simp_all add: optionsArray_def cu_def)

lemma bridgeQuestions_cu:
  assumes "readable t" and "clean sd" and "readable sd" and "bridgeQuestions t sd = Inr q"
  shows "cu q"
proof -
  note rs = assms(3)
  let ?questions = "getq sd ''questions''"
  let ?question = "getq sd ''question''"
  let ?options = "getq sd ''options''"
  show ?thesis
  proof (cases "\<not> truthy ?questions \<and> truthy ?question \<and> truthy ?options")
    case False
    then have "q = ?questions"
      using assms(4) by (auto simp: bridgeQuestions_def get_readable [OF rs])
    then show ?thesis using cu_getq [OF assms(2)] by simp
  next
    case True
    then obtain c fo where
      fo: "mapIdx (formatOption c) (optionsArray ?options) 0 = Inr fo" and
      q: "q = JArr [JObj [(''id'', JStr (js_toString (getq t ''id'') @ ''_q1'')),
                          (''question'', ?question), (''options'', JArr fo)]]"
      using assms(4)
      by (auto simp: bridgeQuestions_def get_readable [OF rs] get_readable [OF assms(1)]
          bind_eq_Inr)
    have "list_all clean fo"
    proof (rule mapIdx_clean [OF _ _ fo])
      show "list_all clean (optionsArray ?options)"
        by (rule clean_optionsArray [OF cu_getq [OF assms(2)]])
    next
      fix x i y
      assume "clean x" "formatOption c x i = Inr y"
      then show "clean y" by (rule formatOption_clean)
    qed
    moreover have "clean ?question"
      using True cu_getq [OF assms(2), of "''question''"] by (auto simp: cu_def)
    ultimately show ?thesis
      using q by (simp add: cu_def)
  qed
qed

lemma clean_sourceDataOf: "clean t \<Longrightarrow> clean (sourceDataOf t)"
proof -
  assume c: "clean t"
  have "cu (getq t ''data'')" "cu (getq t ''content'')" using cu_getq [OF c] by simp_all
  then show ?thesis
    by (auto simp: sourceDataOf_def js_or_def cu_def)
qed

lemma clean_contentOf:
  assumes "clean sd"
  shows "clean (contentOf sd)" and "contentOf sd \<noteq> JNull"
proof -
  have "cu (getq sd ''content'')" "cu (getq sd ''description'')" "cu (getq sd ''body'')"
    using cu_getq [OF assms] by simp_all
  then show "clean (contentOf sd)" and "contentOf sd \<noteq> JNull"
    by (auto simp: contentOf_def nullish_def cu_def)
qed

lemma transformTemplate_eq:
  assumes "readable t"
  shows "transformTemplate t i =
           bind (bridgeQuestions t (sourceDataOf t)) (\<lambda>q.
             Inr (JObj
               (AList.update ''data''
                  (JObj [(''content'', contentOf (sourceDataOf t)),
                         (''subtitle'', js_or (getq (sourceDataOf t) ''subtitle'') JUndefined),
                         (''videoUrl'', js_or (getq (sourceDataOf t) ''videoUrl'') JUndefined),
                         (''questions'', js_or q JUndefined)])
               (AList.update ''order'' (JNum (int i))
               (AList.update ''type'' (js_or (getq t ''type'') (getq t ''templateType''))
                 (spreadObj t))))))"
proof -
  have sd: "js_or (getq t ''data'') (js_or (getq t ''content'') (JObj [])) = sourceDataOf t"
    by (simp add: sourceDataOf_def)
  show ?thesis
    by (simp add: transformTemplate_def get_readable [OF assms] Let_def sd
        get_readable [OF readable_sourceDataOf] contentOf_def)
qed

lemma bridgeQuestions_none:
  assumes "readable sd" and "getq sd ''question'' = JUndefined"
  shows "bridgeQuestions t sd = Inr (getq sd ''questions'')"
  using assms by (simp add: bridgeQuestions_def get_readable)

lemma index_key_digits:
  assumes "k \<in> fst ` set (map (\<lambda>(i, x). (string_of_nat i, g x)) (enumerate n xs))"
  shows "set k \<subseteq> set ''0123456789''"
proof -
  from assms obtain i where "k = string_of_nat i" by auto
  then show ?thesis using string_of_nat_digits [of i] by simp
qed

lemma getq_spreadObj:
  assumes "readable t" and "\<not> set k \<subseteq> set ''0123456789''" and "k \<noteq> ''length''"
  shows "getq (JObj (spreadObj t)) k = getq t k"
proof (cases t)
  case (JArr xs)
  have "k \<notin> fst ` set (map (\<lambda>(i, x). (string_of_nat i, x)) (enumerate 0 xs))"
    using index_key_digits [of k "\<lambda>x. x" 0 xs] assms(2) by blast
  then have "map_of (map (\<lambda>(i, x). (string_of_nat i, x)) (enumerate 0 xs)) k = None"
    by (rule map_of_eq_None_iff [THEN iffD2])
  then show ?thesis using JArr assms(3) by (simp add: getq_def)
next
  case (JStr s)
  have "k \<notin> fst ` set (map (\<lambda>(i, c). (string_of_nat i, JStr [c])) (enumerate 0 s))"
    using index_key_digits [of k "\<lambda>c. JStr [c]" 0 s] assms(2) by blast
  then have "map_of (map (\<lambda>(i, c). (string_of_nat i, JStr [c])) (enumerate 0 s)) k = None"
    by (rule map_of_eq_None_iff [THEN iffD2])
  then show ?thesis using JStr assms(3) by (simp add: getq_def)
qed (use assms(1) in \<open>simp_all add: getq_def readable_def\<close>)

subsection \<open>A second pass over a transformed template\<close>

lemma transformTemplate_idem:
  assumes c: "clean t" and w: "wf_json t" and T: "transformTemplate t i = Inr t1"
  shows "orderOf (jsonClone t1) = Inr (int i) \<and>
         (\<exists>t2. transformTemplate (jsonClone t1) i = Inr t2 \<and> jsonClone t2 = jsonClone t1)"
proof -
  note r = transformTemplate_readable [OF T]
  define sd where "sd = sourceDataOf t"
  define E where "E = spreadObj t"
  define ty where "ty = js_or (getq t ''type'') (getq t ''templateType'')"
  define cont where "cont = contentOf sd"
  define st where "st = js_or (getq sd ''subtitle'') JUndefined"
  define vu where "vu = js_or (getq sd ''videoUrl'') JUndefined"
  from transformTemplate_Inr [OF T] obtain q where
    q: "bridgeQuestions t sd = Inr q" and
    t1: "t1 = JObj
             (AList.update ''data''
                (JObj [(''content'', cont), (''subtitle'', st), (''videoUrl'', vu),
                       (''questions'', js_or q JUndefined)])
             (AList.update ''order'' (JNum (int i)) (AList.update ''type'' ty E)))"
    unfolding sd_def E_def ty_def cont_def st_def vu_def by blast
  define qs where "qs = js_or q JUndefined"
  define D where
    "D = JObj [(''content'', cont), (''subtitle'', st), (''videoUrl'', vu), (''questions'', qs)]"
  define F where
    "F = AList.update ''data'' D (AList.update ''order'' (JNum (int i)) (AList.update ''type'' ty E))"
  define G where "G = cloneEntries F"
  define Dc where "Dc = jsonClone D"
  have t1F: "t1 = JObj F" using t1 by (simp add: F_def D_def qs_def)
  have t1c: "jsonClone t1 = JObj G" by (simp add: t1F G_def)

  have csd: "clean sd" unfolding sd_def by (rule clean_sourceDataOf [OF c])
  have rsd: "readable sd" unfolding sd_def by (rule readable_sourceDataOf)
  have ccont: "clean cont" "cont \<noteq> JNull"
    unfolding cont_def by (rule clean_contentOf [OF csd])+
  then have cont_def': "cont \<noteq> JUndefined" by auto
  have cst: "cu st" "st = JUndefined \<or> truthy st"
    unfolding st_def by (rule cu_or_undefined [OF cu_getq [OF csd]])+
  have cvu: "cu vu" "vu = JUndefined \<or> truthy vu"
    unfolding vu_def by (rule cu_or_undefined [OF cu_getq [OF csd]])+
  have cqs: "cu qs" "qs = JUndefined \<or> truthy qs"
    unfolding qs_def by (rule cu_or_undefined [OF bridgeQuestions_cu [OF r csd rsd q]])+
  have cty: "cu ty"
    unfolding ty_def by (intro cu_js_or cu_getq c)

  txt \<open>The data object and its clone.\<close>
  have dD: "distinct (map fst [(''content'', cont), (''subtitle'', st), (''videoUrl'', vu),
                               (''questions'', qs)])"
    by simp
  have getDc: "getq Dc k = jsonClone (getq D k)" for k
    unfolding Dc_def D_def by (rule getq_jsonClone [OF dD])
  have Dc_content: "getq Dc ''content'' = cont"
    using getDc [of "''content''"] ccont by (simp add: D_def jsonClone_clean)
  have Dc_subtitle: "getq Dc ''subtitle'' = st"
    using getDc [of "''subtitle''"] cst by (simp add: D_def)
  have Dc_videoUrl: "getq Dc ''videoUrl'' = vu"
    using getDc [of "''videoUrl''"] cvu by (simp add: D_def)
  have Dc_questions: "getq Dc ''questions'' = qs"
    using getDc [of "''questions''"] cqs by (simp add: D_def)
  have Dc_question: "getq Dc ''question'' = JUndefined"
    using getDc [of "''question''"] by (simp add: D_def)
  have Dc_truthy: "truthy Dc" by (simp add: Dc_def D_def)
  have Dc_readable: "readable Dc" by (rule truthy_readable [OF Dc_truthy])
  have D_defined: "D \<noteq> JUndefined" by (simp add: D_def)

  txt \<open>The properties of the first result and of its clone.\<close>
  have dE: "distinct (map fst E)" unfolding E_def by (rule distinct_spreadObj [OF w])
  have dF: "distinct (map fst F)"
    unfolding F_def by (intro distinct_update dE)
  have F_data: "map_of F ''data'' = Some D"
    and F_order: "map_of F ''order'' = Some (JNum (int i))"
    and F_type: "map_of F ''type'' = Some ty"
    and F_tt: "map_of F ''templateType'' = map_of E ''templateType''"
    by (simp_all add: F_def update_conv')
  note mG = map_of_clone [OF dF, folded G_def]
  have G_data: "map_of G ''data'' = Some Dc"
    using mG [of "''data''"] F_data D_defined by (simp add: Dc_def)
  have G_order: "map_of G ''order'' = Some (JNum (int i))"
    using mG [of "''order''"] F_order by simp
  have G_type: "map_of G ''type'' = (if ty = JUndefined then None else Some ty)"
    using mG [of "''type''"] F_type cty by simp
  have E_tt: "getq (JObj E) ''templateType'' = getq t ''templateType''"
    unfolding E_def by (rule getq_spreadObj [OF r]) simp_all
  have E_type: "getq (JObj E) ''type'' = getq t ''type''"
    unfolding E_def by (rule getq_spreadObj [OF r]) simp_all
  have cu_tt: "cu (getq t ''templateType'')" by (rule cu_getq [OF c])
  have G_tt: "getq (JObj G) ''templateType'' = getq t ''templateType''"
  proof -
    have "getq (JObj G) ''templateType'' = jsonClone (getq (JObj F) ''templateType'')"
      unfolding G_def using getq_jsonClone [OF dF] by simp
    also have "getq (JObj F) ''templateType'' = getq (JObj E) ''templateType''"
      using F_tt by simp
    finally show ?thesis using E_tt cu_tt by simp
  qed
  have ty2: "js_or (getq (JObj G) ''type'') (getq (JObj G) ''templateType'') = ty"
  proof (cases "truthy (getq t ''type'')")
    case True
    then have "ty = getq t ''type''" "truthy ty" by (simp_all add: ty_def js_or_def)
    then show ?thesis using G_type by (auto simp: js_or_def)
  next
    case False
    then have e: "ty = getq t ''templateType''" by (simp add: ty_def js_or_def)
    show ?thesis
      using G_type G_tt e by (auto simp: js_or_def)
  qed

  txt \<open>The second pass.\<close>
  have sd2: "sourceDataOf (JObj G) = Dc"
    using G_data Dc_truthy by (simp add: sourceDataOf_def js_or_def)
  have cont2: "contentOf Dc = cont"
    using Dc_content ccont cont_def' by (simp add: contentOf_def nullish_def)
  have b2: "bridgeQuestions (JObj G) Dc = Inr qs"
    using bridgeQuestions_none [OF Dc_readable Dc_question] Dc_questions by simp
  have or_st: "js_or st JUndefined = st" "js_or vu JUndefined = vu" "js_or qs JUndefined = qs"
    using cst cvu cqs by (auto simp: js_or_def)
  have rG: "readable (JObj G)" by (simp add: readable_def)
  have pass2: "transformTemplate (JObj G) i =
      Inr (JObj (AList.update ''data'' D
             (AList.update ''order'' (JNum (int i)) (AList.update ''type'' ty G))))"
    unfolding transformTemplate_eq [OF rG] sd2 cont2 b2 Dc_subtitle Dc_videoUrl ty2
    by (simp add: or_st D_def)

  txt \<open>Its clone is the clone of the first result.\<close>
  have GG: "cloneEntries G = G"
    unfolding G_def by (rule cloneEntries_idem)
  have X1: "cloneEntries (AList.update ''type'' ty G) = G"
  proof (cases "ty = JUndefined")
    case True
    then have "''type'' \<notin> fst ` set G"
      using G_type by (simp add: map_of_eq_None_iff)
    then have "cloneEntries (AList.update ''type'' JUndefined G) = cloneEntries G"
      by (rule cloneEntries_update_undefined)
    then show ?thesis
      unfolding True using GG by (rule trans)
  next
    case False
    then have "map_of G ''type'' \<noteq> Some JUndefined" using G_type by simp
    from cloneEntries_update [OF False this]
    have "cloneEntries (AList.update ''type'' ty G) = AList.update ''type'' ty G"
      using cty GG by simp
    also have "\<dots> = G"
      using G_type False by (intro update_triv) simp
    finally show ?thesis .
  qed
  have m1: "map_of (AList.update ''type'' ty G) ''order'' \<noteq> Some JUndefined"
    using G_order by (simp add: update_conv')
  have X2: "cloneEntries (AList.update ''order'' (JNum (int i)) (AList.update ''type'' ty G)) = G"
  proof -
    have "cloneEntries (AList.update ''order'' (JNum (int i)) (AList.update ''type'' ty G)) =
          AList.update ''order'' (JNum (int i)) (cloneEntries (AList.update ''type'' ty G))"
      using cloneEntries_update [OF _ m1, of "JNum (int i)"] by simp
    also have "\<dots> = G"
      unfolding X1 using G_order by (rule update_triv)
    finally show ?thesis .
  qed
  have m2: "map_of (AList.update ''order'' (JNum (int i)) (AList.update ''type'' ty G)) ''data''
              \<noteq> Some JUndefined"
    using G_data Dc_truthy by (auto simp: update_conv')
  have X3: "cloneEntries (AList.update ''data'' D
              (AList.update ''order'' (JNum (int i)) (AList.update ''type'' ty G))) = G"
  proof -
    have "cloneEntries (AList.update ''data'' D
              (AList.update ''order'' (JNum (int i)) (AList.update ''type'' ty G))) =
          AList.update ''data'' Dc
            (cloneEntries (AList.update ''order'' (JNum (int i)) (AList.update ''type'' ty G)))"
      unfolding Dc_def by (rule cloneEntries_update [OF D_defined m2])
    also have "\<dots> = G"
      unfolding X2 using G_data by (rule update_triv)
    finally show ?thesis .
  qed
  have "orderOf (JObj G) = Inr (int i)"
    using G_order by (simp add: orderOf_def nullish_def)
  then show ?thesis
    unfolding t1c pass2 using X3 by simp
qed

subsection \<open>A second pass over the transformed templates\<close>

lemma transformTemplate_object:
  assumes "transformTemplate t i = Inr t1"
  shows "t1 \<noteq> JUndefined"
  using transformTemplate_Inr [OF assms] by auto

lemma mapIdx_transformTemplate_idem:
  assumes "list_all (\<lambda>t. clean t \<and> wf_json t) s"
    and "mapIdx transformTemplate s k = Inr ts"
  shows "JUndefined \<notin> set ts \<and>
         (\<forall>j < length ts. orderOf (map jsonClone ts ! j) = Inr (int (k + j))) \<and>
         (\<exists>ts2. mapIdx transformTemplate (map jsonClone ts) k = Inr ts2 \<and>
                map jsonClone ts2 = map jsonClone ts)"
  using assms
proof (induction s arbitrary: k ts)
  case Nil
  then show ?case by simp
next
  case (Cons t s)
  from Cons.prems(2) obtain t1 ts' where
    t1: "transformTemplate t k = Inr t1" and
    ts': "mapIdx transformTemplate s (Suc k) = Inr ts'" and
    ts: "ts = t1 # ts'"
    by (auto simp: bind_eq_Inr)
  from Cons.prems(1) have ct: "clean t" "wf_json t"
    and cs: "list_all (\<lambda>t. clean t \<and> wf_json t) s"
    by simp_all
  from transformTemplate_idem [OF ct t1] obtain t2 where
    o: "orderOf (jsonClone t1) = Inr (int k)" and
    t2: "transformTemplate (jsonClone t1) k = Inr t2" "jsonClone t2 = jsonClone t1"
    by blast
  from Cons.IH [OF cs ts'] obtain ts2 where
    u: "JUndefined \<notin> set ts'" and
    os: "\<forall>j < length ts'. orderOf (map jsonClone ts' ! j) = Inr (int (Suc k + j))" and
    ts2: "mapIdx transformTemplate (map jsonClone ts') (Suc k) = Inr ts2"
         "map jsonClone ts2 = map jsonClone ts'"
    by blast
  have "\<forall>j < length ts. orderOf (map jsonClone ts ! j) = Inr (int (k + j))"
  proof (intro allI impI)
    fix j assume "j < length ts"
    then show "orderOf (map jsonClone ts ! j) = Inr (int (k + j))"
      using o os ts by (cases j) auto
  qed
  moreover have "mapIdx transformTemplate (map jsonClone ts) k = Inr (t2 # ts2)"
    using t2 ts2 ts by simp
  moreover have "map jsonClone (t2 # ts2) = map jsonClone ts"
    using t2 ts2 ts by simp
  moreover have "JUndefined \<notin> set ts"
    using u ts transformTemplate_object [OF t1] by auto
  ultimately show ?case by blast
qed

lemma insertSorted_last:
  assumes "\<forall>y \<in> set ys. \<exists>a b. orderOf y = Inr a \<and> orderOf x = Inr b \<and> a \<le> b"
  shows "insertSorted compareOrder x ys = Inr (ys @ [x])"
  using assms by (induction ys) (auto simp: compareOrder_def)

lemma sortInto_sorted:
  assumes "\<forall>j < length (acc @ xs). orderOf ((acc @ xs) ! j) = Inr (int j)"
  shows "sortInto compareOrder acc xs = Inr (acc @ xs)"
  using assms
proof (induction xs arbitrary: acc)
  case Nil
  then show ?case by simp
next
  case (Cons x xs)
  have x: "orderOf x = Inr (int (length acc))"
    using Cons.prems [rule_format, of "length acc"] by simp
  have "\<forall>y \<in> set acc. \<exists>a b. orderOf y = Inr a \<and> orderOf x = Inr b \<and> a \<le> b"
  proof
    fix y assume "y \<in> set acc"
    then obtain j where j: "j < length acc" "y = acc ! j" by (auto simp: in_set_conv_nth)
    then have "orderOf y = Inr (int j)"
      using Cons.prems [rule_format, of j] by (simp add: nth_append)
    then show "\<exists>a b. orderOf y = Inr a \<and> orderOf x = Inr b \<and> a \<le> b"
      using x j by simp
  qed
  then have i: "insertSorted compareOrder x acc = Inr (acc @ [x])"
    by (rule insertSorted_last)
  have "sortInto compareOrder (acc @ [x]) xs = Inr ((acc @ [x]) @ xs)"
    by (rule Cons.IH) (use Cons.prems in simp)
  then show ?case using i by simp
qed

lemma js_sort_sorted:
  assumes "\<forall>j < length xs. orderOf (xs ! j) = Inr (int j)"
  shows "js_sort compareOrder xs = Inr xs"
  using sortInto_sorted [of "[]" xs] assms by (simp add: js_sort_def)

lemma spreadArray_elements:
  assumes "clean v" and "wf_json v" and "spreadArray v = Inr xs"
  shows "list_all (\<lambda>t. clean t \<and> wf_json t) xs"
  using assms by (cases v) (auto simp: list_all_iff)

subsection \<open>A second pass over the transformed course\<close>

lemma get_or_object: "get (js_or v (JObj l)) k = Inr (getq (js_or v (JObj l)) k)"
  by (rule get_readable, rule truthy_readable) (simp add: js_or_def)

lemma get_JObj: "get (JObj kvs) k = Inr (getq (JObj kvs) k)"
  by simp

lemma getq_update:
  "getq (JObj (AList.update k v kvs)) k' = (if k' = k then v else getq (JObj kvs) k')"
  by (simp add: update_conv')

lemma backend_eq:
  assumes "course \<noteq> JUndefined" and "jsonClone course = JObj kvs"
  shows "transformCourseForBackend course =
           bind (spreadArray (sourceTemplatesOf (JObj kvs))) (\<lambda>copied.
           bind (js_sort compareOrder copied) (\<lambda>s.
           bind (mapIdx transformTemplate s 0) (\<lambda>ts.
             Inr (JObj
               [(''courseId'', getq (JObj kvs) ''courseId''),
                (''title'', getq (JObj kvs) ''title''),
                (''author'', js_or (getq (JObj kvs) ''author'') (JStr ''Unknown'')),
                (''version'', versionOf (getq (JObj kvs) ''version'')),
                (''language'', js_or (getq (JObj kvs) ''language'') (JStr ''en'')),
                (''templates'', JArr ts),
                (''assets'', js_or (getq (JObj kvs) ''assets'') (JArr [])),
                (''navigation'',
                   navigationOf (js_or (getq (JObj kvs) ''navigation'') (JObj []))),
                (''settings'', js_or (getq (JObj kvs) ''settings'') defaultSettings)]))))"
proof -
  define nav where "nav = js_or (getq (JObj kvs) ''navigation'') (JObj [])"
  have gn: "get nav k = Inr (getq nav k)" for k
    unfolding nav_def by (rule get_or_object)
  have st: "js_or (js_or x defaultSettings)
              (JObj [(''theme'', JStr ''default''), (''autoplay'', JBool False)]) =
            js_or x defaultSettings" for x
    by (simp add: js_or_def defaultSettings_def)
  show ?thesis
  proof (cases "truthy (getq (JObj kvs) ''language'')")
    case True
    then have l: "js_or (getq (JObj kvs) ''language'') (JStr ''en'') = getq (JObj kvs) ''language''"
      by (simp add: js_or_def)
    show ?thesis
      unfolding l nav_def [symmetric]
      using True
      by (simp add: transformCourseForBackend_def deepClone_def assms Let_def get_JObj
          getq_update sourceTemplatesOf_update nav_def [symmetric] gn st l versionOf_def
          navigationOf_def del: getq_JObj get.simps)
  next
    case False
    then have l: "js_or (getq (JObj kvs) ''language'') (JStr ''en'') = JStr ''en''"
      by (simp add: js_or_def)
    have l2: "js_or (JStr ''en'') (JStr ''en'') = JStr ''en''" by (simp add: js_or_def)
    show ?thesis
      unfolding l nav_def [symmetric]
      using False
      by (simp add: transformCourseForBackend_def deepClone_def assms Let_def get_JObj
          getq_update sourceTemplatesOf_update nav_def [symmetric] gn st l2 versionOf_def
          navigationOf_def del: getq_JObj get.simps)
  qed
qed

lemma typeof_boolean: "typeof v = ''boolean'' \<longleftrightarrow> (\<exists>b. v = JBool b)"
  by (cases v) simp_all

lemma jsonClone_JArr: "JUndefined \<notin> set xs \<Longrightarrow> jsonClone (JArr xs) = JArr (map jsonClone xs)"
  by (auto intro: map_cong)

lemma jsonClone_JObj_cong:
  assumes "list_all2 (\<lambda>a b. fst a = fst b \<and> jsonClone (snd a) = jsonClone (snd b)) X Y"
  shows "jsonClone (JObj X) = jsonClone (JObj Y)"
proof -
  have "cloneEntries X = cloneEntries Y"
    using assms
  proof (induction rule: list_all2_induct)
    case Nil
    then show ?case by simp
  next
    case (Cons x xs y ys)
    then have "snd x = JUndefined \<longleftrightarrow> snd y = JUndefined"
      by (metis jsonClone_eq_undefined)
    then show ?case using Cons by auto
  qed
  then show ?thesis by simp
qed

lemma mapIdx_transformTemplate_defined:
  assumes "mapIdx transformTemplate xs k = Inr ys"
  shows "JUndefined \<notin> set ys"
proof
  assume "JUndefined \<in> set ys"
  then obtain j where j: "j < length ys" "ys ! j = JUndefined"
    by (auto simp: in_set_conv_nth)
  from mapIdx_nth [OF assms] j have "transformTemplate (xs ! j) (k + j) = Inr JUndefined"
    by auto
  then show False by (auto dest: transformTemplate_object)
qed

lemma semverTest_default: "semverTest ''1.0.0''"
  by (simp add: semverTest_def digitsThen_def isDigit_def)

lemma versionOf_idem:
  assumes "cu v"
  shows "clean (versionOf v)" and "versionOf (versionOf v) = versionOf v"
  using assms semverTest_default
  by (auto simp: versionOf_def dest: truthy_cu_clean)

lemma navigationOf_idem:
  assumes "clean nav"
    and "typeof (getq (navigationOf nav) ''linearProgression'') = ''boolean''"
  shows "clean (navigationOf nav)"
    and "navigationOf (js_or (navigationOf nav) (JObj [])) = navigationOf nav"
proof -
  define a where "a = nullish (getq nav ''allowSkip'') (JBool True)"
  define b where "b = nullish (getq nav ''showProgress'') (JBool True)"
  define l where "l = (if typeof (getq nav ''linearProgression'') = ''boolean''
                       then getq nav ''linearProgression''
                       else nullish (getq nav ''lockProgression'') (JBool False))"
  have n: "navigationOf nav =
             JObj [(''allowSkip'', a), (''showProgress'', b), (''linearProgression'', l)]"
    by (simp add: navigationOf_def a_def b_def l_def)
  have ca: "clean a" "nullish a (JBool True) = a"
    using cu_getq [OF assms(1), of "''allowSkip''"]
    by (auto simp: a_def nullish_def cu_def)
  have cb: "clean b" "nullish b (JBool True) = b"
    using cu_getq [OF assms(1), of "''showProgress''"]
    by (auto simp: b_def nullish_def cu_def)
  from assms(2) obtain x where l: "l = JBool x"
    unfolding n by (auto simp: typeof_boolean)
  show "clean (navigationOf nav)"
    unfolding n using ca cb l by simp
  show "navigationOf (js_or (navigationOf nav) (JObj [])) = navigationOf nav"
    unfolding n using ca cb l by (simp add: js_or_def navigationOf_def)
qed

lemma js_or_truthy: "truthy a \<Longrightarrow> js_or a b = a"
  by (simp add: js_or_def)

lemma truthy_js_or: "truthy b \<Longrightarrow> truthy (js_or a b)"
  by (simp add: js_or_def)

text \<open>
  Claim C7, for the results whose \<open>linearProgression\<close> is a boolean, and with the two
  results compared as JSON, that is as they are serialised: whenever
  \<open>transformCourseForBackend\<close> returns \<open>r\<close> on a course (a value whose objects have
  distinct keys) and \<open>r.navigation.linearProgression\<close> is a boolean, it returns on \<open>r\<close>
  as well, and the JSON of that second result is the JSON of \<open>r\<close>.
\<close>

theorem backend_idempotent:
  assumes w: "wf_json course" and T: "transformCourseForBackend course = Inr r"
    and lp: "typeof (getq (getq r ''navigation'') ''linearProgression'') = ''boolean''"
  shows "\<exists>r'. transformCourseForBackend r = Inr r' \<and> jsonClone r' = jsonClone r"
proof -
  from backend_clone_object [OF T] obtain kvs where kvs: "jsonClone course = JObj kvs"
    by blast
  have u: "course \<noteq> JUndefined" using kvs by auto
  define C where "C = JObj kvs"
  have cC: "clean C" unfolding C_def kvs [symmetric] by (rule clean_jsonClone [OF u])
  have wC: "wf_json C" unfolding C_def kvs [symmetric] by (rule wf_jsonClone [OF w])
  define cid where "cid = getq C ''courseId''"
  define ttl where "ttl = getq C ''title''"
  define A where "A = js_or (getq C ''author'') (JStr ''Unknown'')"
  define V where "V = versionOf (getq C ''version'')"
  define L where "L = js_or (getq C ''language'') (JStr ''en'')"
  define As where "As = js_or (getq C ''assets'') (JArr [])"
  define nav where "nav = js_or (getq C ''navigation'') (JObj [])"
  define N where "N = navigationOf nav"
  define S where "S = js_or (getq C ''settings'') defaultSettings"
  note folds = C_def [symmetric] cid_def [symmetric] ttl_def [symmetric] A_def [symmetric]
    V_def [symmetric] L_def [symmetric] As_def [symmetric] nav_def [symmetric]
    N_def [symmetric] S_def [symmetric]
  have "bind (spreadArray (sourceTemplatesOf C)) (\<lambda>copied.
        bind (js_sort compareOrder copied) (\<lambda>s.
        bind (mapIdx transformTemplate s 0) (\<lambda>ts.
          Inr (JObj [(''courseId'', cid), (''title'', ttl), (''author'', A), (''version'', V),
                     (''language'', L), (''templates'', JArr ts), (''assets'', As),
                     (''navigation'', N), (''settings'', S)])))) = Inr r"
    using T unfolding backend_eq [OF u kvs] folds .
  then obtain src s ts where
    src: "spreadArray (sourceTemplatesOf C) = Inr src" and
    s: "js_sort compareOrder src = Inr s" and
    ts: "mapIdx transformTemplate s 0 = Inr ts" and
    r: "r = JObj [(''courseId'', cid), (''title'', ttl), (''author'', A), (''version'', V),
                  (''language'', L), (''templates'', JArr ts), (''assets'', As),
                  (''navigation'', N), (''settings'', S)]"
    by (auto simp: bind_eq_Inr)

  txt \<open>The parts of the first result.\<close>
  have ccid: "cu cid" and cttl: "cu ttl"
    unfolding cid_def ttl_def by (rule cu_getq [OF cC])+
  have cA: "cu A" "truthy A"
    unfolding A_def by (intro cu_js_or cu_getq cC cu_simps, rule truthy_js_or, simp)
  have cV: "clean V" "versionOf V = V"
    unfolding V_def by (rule versionOf_idem [OF cu_getq [OF cC]])+
  have cL: "cu L" "truthy L"
    unfolding L_def by (intro cu_js_or cu_getq cC cu_simps, rule truthy_js_or, simp)
  have cAs: "cu As" "truthy As"
    unfolding As_def by (intro cu_js_or cu_getq cC, simp add: cu_def, rule truthy_js_or, simp)
  have cnav: "clean nav"
    unfolding nav_def using cu_getq [OF cC, of "''navigation''"]
    by (auto simp: js_or_def cu_def)
  have lpN: "typeof (getq N ''linearProgression'') = ''boolean''"
    using lp by (simp add: r)
  have cN: "clean N" "navigationOf (js_or N (JObj [])) = N"
    unfolding N_def by (rule navigationOf_idem [OF cnav lpN [unfolded N_def]])+
  have tS: "truthy S"
    unfolding S_def by (rule truthy_js_or) (simp add: defaultSettings_def)
  have S_defined: "S \<noteq> JUndefined" using tS by auto

  txt \<open>The templates of the first result, and a second pass over their clones.\<close>
  have "clean (sourceTemplatesOf C)"
    using cu_getq [OF cC, of "''templates''"] cu_getq [OF cC, of "''pages''"]
    by (auto simp: sourceTemplatesOf_def js_or_def cu_def)
  moreover have "wf_json (sourceTemplatesOf C)"
    unfolding sourceTemplatesOf_def by (intro wf_js_or wf_getq wC) simp
  ultimately have "list_all (\<lambda>t. clean t \<and> wf_json t) src"
    using src by (rule spreadArray_elements)
  moreover have "set s = set src"
    using js_sort_props [OF s] by (metis set_mset_mset)
  ultimately have es: "list_all (\<lambda>t. clean t \<and> wf_json t) s"
    by (simp add: list_all_iff)
  from mapIdx_transformTemplate_idem [OF es ts] obtain ts2 where
    uts: "JUndefined \<notin> set ts" and
    ord: "\<forall>j < length ts. orderOf (map jsonClone ts ! j) = Inr (int j)" and
    ts2: "mapIdx transformTemplate (map jsonClone ts) 0 = Inr ts2" and
    eq2: "map jsonClone ts2 = map jsonClone ts"
    by auto
  have sort2: "js_sort compareOrder (map jsonClone ts) = Inr (map jsonClone ts)"
    by (rule js_sort_sorted) (use ord in simp)
  have uts2: "JUndefined \<notin> set ts2"
    by (rule mapIdx_transformTemplate_defined [OF ts2])
  have cts: "jsonClone (JArr ts2) = jsonClone (JArr ts)"
    using eq2 by (simp only: jsonClone_JArr [OF uts] jsonClone_JArr [OF uts2])

  txt \<open>The clone of the first result.\<close>
  define R where
    "R = [(''courseId'', cid), (''title'', ttl), (''author'', A), (''version'', V),
          (''language'', L), (''templates'', JArr ts), (''assets'', As),
          (''navigation'', N), (''settings'', S)]"
  define kvs2 where "kvs2 = cloneEntries R"
  have rR: "r = JObj R" by (simp add: r R_def)
  have ru: "r \<noteq> JUndefined" by (simp add: rR)
  have rc: "jsonClone r = JObj kvs2" by (simp add: rR kvs2_def)
  have dR: "distinct (map fst R)" by (simp add: R_def)
  have g: "getq (JObj kvs2) k = jsonClone (getq (JObj R) k)" for k
    using getq_jsonClone [OF dR, of k] by (simp add: kvs2_def)
  have g_cid: "getq (JObj kvs2) ''courseId'' = cid"
    unfolding g using ccid by (simp add: R_def)
  have g_ttl: "getq (JObj kvs2) ''title'' = ttl"
    unfolding g using cttl by (simp add: R_def)
  have g_A: "getq (JObj kvs2) ''author'' = A"
    unfolding g using cA by (simp add: R_def)
  have g_V: "getq (JObj kvs2) ''version'' = V"
    unfolding g using cV by (simp add: R_def jsonClone_clean)
  have g_L: "getq (JObj kvs2) ''language'' = L"
    unfolding g using cL by (simp add: R_def)
  have g_ts: "getq (JObj kvs2) ''templates'' = JArr (map jsonClone ts)"
    unfolding g using jsonClone_JArr [OF uts] by (simp add: R_def)
  have g_As: "getq (JObj kvs2) ''assets'' = As"
    unfolding g using cAs by (simp add: R_def)
  have g_N: "getq (JObj kvs2) ''navigation'' = N"
    unfolding g using cN by (simp add: R_def jsonClone_clean)
  have g_S: "getq (JObj kvs2) ''settings'' = jsonClone S"
    unfolding g by (simp add: R_def)
  have st2: "sourceTemplatesOf (JObj kvs2) = JArr (map jsonClone ts)"
    unfolding sourceTemplatesOf_def g_ts by (simp add: js_or_def)
  have pass2: "transformCourseForBackend r =
      Inr (JObj [(''courseId'', cid), (''title'', ttl), (''author'', A), (''version'', V),
                 (''language'', L), (''templates'', JArr ts2), (''assets'', As),
                 (''navigation'', N), (''settings'', jsonClone S)])"
    unfolding backend_eq [OF ru rc] st2 g_cid g_ttl g_A g_V g_L g_As g_N g_S
    using ts2 sort2 cA cL cAs cV cN tS
    by (simp add: js_or_truthy del: getq_JObj)
  have "jsonClone (JObj [(''courseId'', cid), (''title'', ttl), (''author'', A), (''version'', V),
                 (''language'', L), (''templates'', JArr ts2), (''assets'', As),
                 (''navigation'', N), (''settings'', jsonClone S)]) = jsonClone (JObj R)"
    unfolding R_def
    by (rule jsonClone_JObj_cong) (simp add: cts del: jsonClone.simps)
  then have "jsonClone (JObj [(''courseId'', cid), (''title'', ttl), (''author'', A),
                 (''version'', V), (''language'', L), (''templates'', JArr ts2), (''assets'', As),
                 (''navigation'', N), (''settings'', jsonClone S)]) = jsonClone r"
    by (simp only: rR)
  with pass2 show ?thesis by blast
qed


lemma lockedCourse_eval:
  "\<exists>r. transformCourseForBackend lockedCourse = Inr r \<and>
       getq (getq r ''navigation'') ''linearProgression'' = JBool True"
  by (simp add: lockedCourse_def transform_defs enumerate_eq_zip upt_rec
      string_of_nat_small digit_char_def)

theorem backend_idempotent_witness:
  "wf_json lockedCourse \<and>
   (\<exists>r. transformCourseForBackend lockedCourse = Inr r \<and>
        typeof (getq (getq r ''navigation'') ''linearProgression'') = ''boolean'' \<and>
        (\<exists>r'. transformCourseForBackend r = Inr r' \<and> jsonClone r' = jsonClone r))"
proof -
  have w: "wf_json lockedCourse" by (simp add: lockedCourse_def)
  from lockedCourse_eval obtain r where
    r: "transformCourseForBackend lockedCourse = Inr r" and
    l: "getq (getq r ''navigation'') ''linearProgression'' = JBool True"
    by auto
  from l have t: "typeof (getq (getq r ''navigation'') ''linearProgression'') = ''boolean''"
    by simp
  from backend_idempotent [OF w r t] show ?thesis
    using w r t by auto
qed

text \<open>
  Claim C7 as stated holds for every course. With the number 1 as \<open>lockProgression\<close> the
  first pass copies it to \<open>linearProgression\<close>; the second pass finds a
  \<open>linearProgression\<close> that is not a boolean and no \<open>lockProgression\<close>, and answers false.
  The \<open>duration\<close> property of the default settings, undefined, is in the first result and
  not in the second.
\<close>

theorem backend_idempotent_counterexample:
  "transformCourseForBackend lockNumberCourse =
     Inr (JObj [(''courseId'', JStr ''c1''), (''title'', JStr ''Course''),
                (''author'', JStr ''Unknown''), (''version'', JStr ''1.0.0''),
                (''language'', JStr ''en''), (''templates'', JArr []), (''assets'', JArr []),
                (''navigation'',
                   JObj [(''allowSkip'', JBool True), (''showProgress'', JBool True),
                         (''linearProgression'', JNum 1)]),
                (''settings'',
                   JObj [(''theme'', JStr ''default''), (''autoplay'', JBool False),
                         (''duration'', JUndefined)])]) \<and>
   transformCourseForBackend
     (JObj [(''courseId'', JStr ''c1''), (''title'', JStr ''Course''),
            (''author'', JStr ''Unknown''), (''version'', JStr ''1.0.0''),
            (''language'', JStr ''en''), (''templates'', JArr []), (''assets'', JArr []),
            (''navigation'',
               JObj [(''allowSkip'', JBool True), (''showProgress'', JBool True),
                     (''linearProgression'', JNum 1)]),
            (''settings'',
               JObj [(''theme'', JStr ''default''), (''autoplay'', JBool False),
                     (''duration'', JUndefined)])]) =
     Inr (JObj [(''courseId'', JStr ''c1''), (''title'', JStr ''Course''),
                (''author'', JStr ''Unknown''), (''version'', JStr ''1.0.0''),
                (''language'', JStr ''en''), (''templates'', JArr []), (''assets'', JArr []),
                (''navigation'',
                   JObj [(''allowSkip'', JBool True), (''showProgress'', JBool True),
                         (''linearProgression'', JBool False)]),
                (''settings'',
                   JObj [(''theme'', JStr ''default''), (''autoplay'', JBool False)])])"
  by (simp add: lockNumberCourse_def transform_defs semverTest_def digitsThen_def isDigit_def)

subsection \<open>Export placeholder for a course\<close>









subsection \<open>Numbers in exponent notation\<close>

lemma bitlen_numeral [simp]:
  "bitlen (numeral k) = Suc (bitlen (numeral k div 2))"
  by (subst bitlen.simps) simp

lemma bitlen_0 [simp]: "bitlen 0 = 0"
  by (subst bitlen.simps) simp

lemma bitlen_1 [simp]: "bitlen (Suc 0) = Suc 0"
  by (subst bitlen.simps) simp

lemma string_of_nat_length: "0 < length (string_of_nat x)"
  by (subst string_of_nat.simps) simp

lemma shortestDecimal_1:
  assumes "decimalsOf x 1 \<noteq> []"
  shows "shortestDecimal x = closestOf x 1 (decimalsOf x 1)"
proof -
  let ?n = "length (string_of_nat x)"
  let ?P = "\<lambda>k. decimalsOf x k \<noteq> []"
  have "1 < Suc ?n" using string_of_nat_length [of x] by simp
  then have u: "[1..<Suc ?n] = 1 # [Suc 1..<Suc ?n]" by (rule upt_conv_Cons)
  have f: "filter ?P (1 # [Suc 1..<Suc ?n]) = 1 # filter ?P [Suc 1..<Suc ?n]"
    using assms by (simp only: filter.simps not_False_eq_True if_True)
  have "shortestDecimal x =
          (case 1 # filter ?P [Suc 1..<Suc ?n] of [] \<Rightarrow> x | k # _ \<Rightarrow> closestOf x k (decimalsOf x k))"
    by (simp only: shortestDecimal_def u f)
  also have "\<dots> = closestOf x 1 (decimalsOf x 1)" by (rule list.case)
  finally show ?thesis .
qed

lemma roundDouble_1e21 [simp]:
  "roundDouble 1000000000000000000000 = 1000000000000000000000"
  "roundDouble 2000000000000000000000 \<noteq> 1000000000000000000000"
  by (simp_all add: roundDouble_def Let_def)

lemma length_1e21 [simp]: "length (string_of_nat 1000000000000000000000) = 22"
  by (simp add: digit_char_def)

lemma decimalsOf_1e21: "decimalsOf 1000000000000000000000 1 = [1000000000000000000000]"
  by (simp add: decimalsOf_def Let_def)

lemma number_toString_1e21: "number_toString 1000000000000000000000 = ''1e+21''"
proof -
  have n: "decimalsOf 1000000000000000000000 1 \<noteq> []"
    unfolding decimalsOf_1e21 by simp
  have s: "shortestDecimal 1000000000000000000000 = 1000000000000000000000"
    unfolding shortestDecimal_1 [OF n] decimalsOf_1e21 closestOf_def by simp
  have d: "string_of_nat 1000000000000000000000 = ''1000000000000000000000''"
    by (simp add: digit_char_def)
  have l: "length ''1000000000000000000000'' - 1 = (21::nat)" by simp
  have e: "exponentForm ''1000000000000000000000'' = ''1e+21''"
    unfolding exponentForm_def Let_def l by (simp add: digit_char_def)
  show ?thesis
    by (simp add: number_toString_def Let_def s d e)
qed

lemma js_toString_1e21: "js_toString (JNum 1000000000000000000000) = ''1e+21''"
  by (simp only: js_toString.simps number_toString_1e21)

end
